theory Spec2Isabelle
  imports Main "HOL-Library.Word"
begin

section \<open>JavaScript strings\<close>

text \<open>
  A JavaScript string is a sequence of UTF-16 code units. \<open>split('')\<close> and a regular
  expression without the \<open>u\<close> flag see the code units one by one; a regular expression
  with the \<open>u\<close> flag sees code points, a high surrogate followed by a low surrogate
  being one code point and every other code unit (a lone surrogate too) being one.
\<close>

type_synonym jsstring = "16 word list"

definition js :: "string \<Rightarrow> jsstring" where
  "js s = map of_char s"

definition is_high :: "16 word \<Rightarrow> bool" where
  "is_high u = (0xD800 \<le> u \<and> u \<le> 0xDBFF)"

definition is_low :: "16 word \<Rightarrow> bool" where
  "is_low u = (0xDC00 \<le> u \<and> u \<le> 0xDFFF)"

text \<open>The code points of a string, each kept as the code units that spell it.\<close>

fun code_points :: "jsstring \<Rightarrow> jsstring list" where
  "code_points [] = []"
| "code_points [u] = [[u]]"
| "code_points (u # v # s) =
     (if is_high u \<and> is_low v then [u, v] # code_points s
      else [u] # code_points (v # s))"

text \<open>
  The scalar value that one code point stands for; it is applied to the elements of
  \<open>code_points\<close>, where two code units are a high and a low surrogate.
\<close>

fun cp :: "jsstring \<Rightarrow> nat" where
  "cp [u] = unat u"
| "cp [u, v] = 0x10000 + (unat u - 0xD800) * 0x400 + (unat v - 0xDC00)"
| "cp _ = 0"

section \<open>Regular expressions\<close>

text \<open>
  The fragment of the regular expression syntax that the formatter uses: a literal
  character, a negated one-character class \<open>[^c]\<close>, a property class \<open>\p{...}\<close>,
  sequence, alternation \<open>|\<close>, the greedy quantifier \<open>+\<close> and the capturing group
  (the patterns have one group each). The elements are code units without the \<open>u\<close>
  flag and code points with it.
\<close>

datatype 'a regex =
    Chr 'a
  | NotChr 'a
  | Prop "'a \<Rightarrow> bool"
  | Seq "'a regex" "'a regex"
  | Alt "'a regex" "'a regex"
  | Plus "'a regex"
  | Group "'a regex"

text \<open>
  A matcher state is the input still to be read and the text captured by group 1.
  A matcher returns every state it can end in, in the order in which backtracking
  tries them.
\<close>

type_synonym 'a mstate = "'a list \<times> 'a list option"

definition atom :: "('a \<Rightarrow> bool) \<Rightarrow> 'a mstate \<Rightarrow> 'a mstate list" where
  "atom p st = (case fst st of [] \<Rightarrow> [] | x # xs \<Rightarrow> if p x then [(xs, snd st)] else [])"

text \<open>
  The greedy quantifier. \<open>repeat0\<close> is the matcher once the minimum is reached: it
  tries one more round first and stopping second, and a further round that reads
  nothing is rejected. \<open>repeat1\<close> is \<open>r+\<close>: one round, then \<open>repeat0\<close>.
\<close>

function repeat0 :: "('a mstate \<Rightarrow> 'a mstate list) \<Rightarrow> 'a mstate \<Rightarrow> 'a mstate list" where
  "repeat0 m st =
     concat (map (\<lambda>st'. if length (fst st') < length (fst st) then repeat0 m st' else [])
                 (m st))
     @ [st]"
  by pat_completeness auto
termination
  by (relation "measure (\<lambda>(m, st). length (fst st))") auto

declare repeat0.simps [simp del]

definition repeat1 :: "('a mstate \<Rightarrow> 'a mstate list) \<Rightarrow> 'a mstate \<Rightarrow> 'a mstate list" where
  "repeat1 m st = concat (map (repeat0 m) (m st))"

primrec ms :: "'a regex \<Rightarrow> 'a mstate \<Rightarrow> 'a mstate list" where
  "ms (Chr c) = atom (\<lambda>x. x = c)"
| "ms (NotChr c) = atom (\<lambda>x. x \<noteq> c)"
| "ms (Prop p) = atom p"
| "ms (Seq r1 r2) = (\<lambda>st. concat (map (ms r2) (ms r1 st)))"
| "ms (Alt r1 r2) = (\<lambda>st. ms r1 st @ ms r2 st)"
| "ms (Plus r) = repeat1 (ms r)"
| "ms (Group r) =
     (\<lambda>st. map (\<lambda>st'. (fst st', Some (take (length (fst st) - length (fst st')) (fst st))))
               (ms r st))"

text \<open>
  One attempt at the start of \<open>s\<close>: the matched text, the text of group 1 (the empty
  string when the group took no part) and the first way to match wins.
\<close>

definition exec_at :: "'a regex \<Rightarrow> 'a list \<Rightarrow> ('a list \<times> 'a list) option" where
  "exec_at r s =
     (case ms r (s, None) of
        [] \<Rightarrow> None
      | st # _ \<Rightarrow> Some (take (length s - length (fst st)) s,
                        case snd st of None \<Rightarrow> [] | Some g \<Rightarrow> g))"

text \<open>
  \<open>String.prototype.replace\<close> with a pattern that has the \<open>g\<close> flag: the matches are
  looked for from left to right, each search starting where the previous match ended
  (one element further after an empty match); the text between matches is copied and
  each match is replaced by what the replacer makes of the match and group 1.
\<close>

function replace_g :: "'a regex \<Rightarrow> ('a list \<Rightarrow> 'a list \<Rightarrow> 'a list) \<Rightarrow> 'a list \<Rightarrow> 'a list" where
  "replace_g r f [] = (case exec_at r [] of None \<Rightarrow> [] | Some (m, g) \<Rightarrow> f m g)"
| "replace_g r f (x # xs) =
     (case exec_at r (x # xs) of
        None \<Rightarrow> x # replace_g r f xs
      | Some (m, g) \<Rightarrow>
          if m = [] then f m g @ x # replace_g r f xs
          else f m g @ replace_g r f (drop (length m - 1) xs))"
  by pat_completeness auto
termination
  by (relation "measure (\<lambda>(r, f, s). length s)") auto

section \<open>The glyph tables\<close>

text \<open>
  The three object literals of \<open>toBoldUnicode\<close>, \<open>toItalicUnicode\<close> and
  \<open>toMonospaceUnicode\<close>, entry by entry in the order of the source. A key is one
  code unit; a value is the surrogate pair of a mathematical alphanumeric symbol.
\<close>

definition boldMap :: "(16 word \<times> jsstring) list" where
  "boldMap =
    [(0x41, [0xD835, 0xDDD4]), (0x42, [0xD835, 0xDDD5]), (0x43, [0xD835, 0xDDD6]), (0x44, [0xD835, 0xDDD7]), (0x45, [0xD835, 0xDDD8]), (0x46, [0xD835, 0xDDD9]), (0x47, [0xD835, 0xDDDA]),
     (0x48, [0xD835, 0xDDDB]), (0x49, [0xD835, 0xDDDC]), (0x4A, [0xD835, 0xDDDD]), (0x4B, [0xD835, 0xDDDE]), (0x4C, [0xD835, 0xDDDF]), (0x4D, [0xD835, 0xDDE0]), (0x4E, [0xD835, 0xDDE1]),
     (0x4F, [0xD835, 0xDDE2]), (0x50, [0xD835, 0xDDE3]), (0x51, [0xD835, 0xDDE4]), (0x52, [0xD835, 0xDDE5]), (0x53, [0xD835, 0xDDE6]), (0x54, [0xD835, 0xDDE7]), (0x55, [0xD835, 0xDDE8]),
     (0x56, [0xD835, 0xDDE9]), (0x57, [0xD835, 0xDDEA]), (0x58, [0xD835, 0xDDEB]), (0x59, [0xD835, 0xDDEC]), (0x5A, [0xD835, 0xDDED]),
     (0x61, [0xD835, 0xDDEE]), (0x62, [0xD835, 0xDDEF]), (0x63, [0xD835, 0xDDF0]), (0x64, [0xD835, 0xDDF1]), (0x65, [0xD835, 0xDDF2]), (0x66, [0xD835, 0xDDF3]), (0x67, [0xD835, 0xDDF4]),
     (0x68, [0xD835, 0xDDF5]), (0x69, [0xD835, 0xDDF6]), (0x6A, [0xD835, 0xDDF7]), (0x6B, [0xD835, 0xDDF8]), (0x6C, [0xD835, 0xDDF9]), (0x6D, [0xD835, 0xDDFA]), (0x6E, [0xD835, 0xDDFB]),
     (0x6F, [0xD835, 0xDDFC]), (0x70, [0xD835, 0xDDFD]), (0x71, [0xD835, 0xDDFE]), (0x72, [0xD835, 0xDDFF]), (0x73, [0xD835, 0xDE00]), (0x74, [0xD835, 0xDE01]), (0x75, [0xD835, 0xDE02]),
     (0x76, [0xD835, 0xDE03]), (0x77, [0xD835, 0xDE04]), (0x78, [0xD835, 0xDE05]), (0x79, [0xD835, 0xDE06]), (0x7A, [0xD835, 0xDE07]),
     (0x30, [0xD835, 0xDFEC]), (0x31, [0xD835, 0xDFED]), (0x32, [0xD835, 0xDFEE]), (0x33, [0xD835, 0xDFEF]), (0x34, [0xD835, 0xDFF0]),
     (0x35, [0xD835, 0xDFF1]), (0x36, [0xD835, 0xDFF2]), (0x37, [0xD835, 0xDFF3]), (0x38, [0xD835, 0xDFF4]), (0x39, [0xD835, 0xDFF5])]"

definition italicMap :: "(16 word \<times> jsstring) list" where
  "italicMap =
    [(0x41, [0xD835, 0xDE08]), (0x42, [0xD835, 0xDE09]), (0x43, [0xD835, 0xDE0A]), (0x44, [0xD835, 0xDE0B]), (0x45, [0xD835, 0xDE0C]), (0x46, [0xD835, 0xDE0D]), (0x47, [0xD835, 0xDE0E]),
     (0x48, [0xD835, 0xDE0F]), (0x49, [0xD835, 0xDE10]), (0x4A, [0xD835, 0xDE11]), (0x4B, [0xD835, 0xDE12]), (0x4C, [0xD835, 0xDE13]), (0x4D, [0xD835, 0xDE14]), (0x4E, [0xD835, 0xDE15]),
     (0x4F, [0xD835, 0xDE16]), (0x50, [0xD835, 0xDE17]), (0x51, [0xD835, 0xDE18]), (0x52, [0xD835, 0xDE19]), (0x53, [0xD835, 0xDE1A]), (0x54, [0xD835, 0xDE1B]), (0x55, [0xD835, 0xDE1C]),
     (0x56, [0xD835, 0xDE1D]), (0x57, [0xD835, 0xDE1E]), (0x58, [0xD835, 0xDE1F]), (0x59, [0xD835, 0xDE20]), (0x5A, [0xD835, 0xDE21]),
     (0x61, [0xD835, 0xDE22]), (0x62, [0xD835, 0xDE23]), (0x63, [0xD835, 0xDE24]), (0x64, [0xD835, 0xDE25]), (0x65, [0xD835, 0xDE26]), (0x66, [0xD835, 0xDE27]), (0x67, [0xD835, 0xDE28]),
     (0x68, [0xD835, 0xDE29]), (0x69, [0xD835, 0xDE2A]), (0x6A, [0xD835, 0xDE2B]), (0x6B, [0xD835, 0xDE2C]), (0x6C, [0xD835, 0xDE2D]), (0x6D, [0xD835, 0xDE2E]), (0x6E, [0xD835, 0xDE2F]),
     (0x6F, [0xD835, 0xDE30]), (0x70, [0xD835, 0xDE31]), (0x71, [0xD835, 0xDE32]), (0x72, [0xD835, 0xDE33]), (0x73, [0xD835, 0xDE34]), (0x74, [0xD835, 0xDE35]), (0x75, [0xD835, 0xDE36]),
     (0x76, [0xD835, 0xDE37]), (0x77, [0xD835, 0xDE38]), (0x78, [0xD835, 0xDE39]), (0x79, [0xD835, 0xDE3A]), (0x7A, [0xD835, 0xDE3B])]"

definition monospaceMap :: "(16 word \<times> jsstring) list" where
  "monospaceMap =
    [(0x41, [0xD835, 0xDE70]), (0x42, [0xD835, 0xDE71]), (0x43, [0xD835, 0xDE72]), (0x44, [0xD835, 0xDE73]), (0x45, [0xD835, 0xDE74]), (0x46, [0xD835, 0xDE75]), (0x47, [0xD835, 0xDE76]),
     (0x48, [0xD835, 0xDE77]), (0x49, [0xD835, 0xDE78]), (0x4A, [0xD835, 0xDE79]), (0x4B, [0xD835, 0xDE7A]), (0x4C, [0xD835, 0xDE7B]), (0x4D, [0xD835, 0xDE7C]), (0x4E, [0xD835, 0xDE7D]),
     (0x4F, [0xD835, 0xDE7E]), (0x50, [0xD835, 0xDE7F]), (0x51, [0xD835, 0xDE80]), (0x52, [0xD835, 0xDE81]), (0x53, [0xD835, 0xDE82]), (0x54, [0xD835, 0xDE83]), (0x55, [0xD835, 0xDE84]),
     (0x56, [0xD835, 0xDE85]), (0x57, [0xD835, 0xDE86]), (0x58, [0xD835, 0xDE87]), (0x59, [0xD835, 0xDE88]), (0x5A, [0xD835, 0xDE89]),
     (0x61, [0xD835, 0xDE8A]), (0x62, [0xD835, 0xDE8B]), (0x63, [0xD835, 0xDE8C]), (0x64, [0xD835, 0xDE8D]), (0x65, [0xD835, 0xDE8E]), (0x66, [0xD835, 0xDE8F]), (0x67, [0xD835, 0xDE90]),
     (0x68, [0xD835, 0xDE91]), (0x69, [0xD835, 0xDE92]), (0x6A, [0xD835, 0xDE93]), (0x6B, [0xD835, 0xDE94]), (0x6C, [0xD835, 0xDE95]), (0x6D, [0xD835, 0xDE96]), (0x6E, [0xD835, 0xDE97]),
     (0x6F, [0xD835, 0xDE98]), (0x70, [0xD835, 0xDE99]), (0x71, [0xD835, 0xDE9A]), (0x72, [0xD835, 0xDE9B]), (0x73, [0xD835, 0xDE9C]), (0x74, [0xD835, 0xDE9D]), (0x75, [0xD835, 0xDE9E]),
     (0x76, [0xD835, 0xDE9F]), (0x77, [0xD835, 0xDEA0]), (0x78, [0xD835, 0xDEA1]), (0x79, [0xD835, 0xDEA2]), (0x7A, [0xD835, 0xDEA3]),
     (0x30, [0xD835, 0xDFF6]), (0x31, [0xD835, 0xDFF7]), (0x32, [0xD835, 0xDFF8]), (0x33, [0xD835, 0xDFF9]), (0x34, [0xD835, 0xDFFA]),
     (0x35, [0xD835, 0xDFFB]), (0x36, [0xD835, 0xDFFC]), (0x37, [0xD835, 0xDFFD]), (0x38, [0xD835, 0xDFFE]), (0x39, [0xD835, 0xDFFF])]"

text \<open>\<open>map[char] || char\<close>: a missing key gives \<open>undefined\<close> and an empty string is falsy.\<close>

definition lookup_or :: "(16 word \<times> jsstring) list \<Rightarrow> 16 word \<Rightarrow> jsstring" where
  "lookup_or table c =
     (case map_of table c of None \<Rightarrow> [c] | Some v \<Rightarrow> if v = [] then [c] else v)"

definition toBoldUnicode :: "jsstring \<Rightarrow> jsstring" where
  "toBoldUnicode text = concat (map (lookup_or boldMap) text)"

definition toItalicUnicode :: "jsstring \<Rightarrow> jsstring" where
  "toItalicUnicode text = concat (map (lookup_or italicMap) text)"

definition toStrikethroughUnicode :: "jsstring \<Rightarrow> jsstring" where
  "toStrikethroughUnicode text = concat (map (\<lambda>c. [c, 0x0336]) text)"

definition toMonospaceUnicode :: "jsstring \<Rightarrow> jsstring" where
  "toMonospaceUnicode text = concat (map (lookup_or monospaceMap) text)"

section \<open>The passes\<close>

text \<open>The pattern \<open>d([^d]+)d\<close> of the bold, italic, strikethrough and quote passes.\<close>

definition delimited :: "'a \<Rightarrow> 'a regex" where
  "delimited d = Seq (Chr d) (Seq (Group (Plus (NotChr d))) (Chr d))"

text \<open>The pattern \<open>```([^`]+)```\<close> of the monospace pass.\<close>

definition fenced :: "'a \<Rightarrow> 'a regex" where
  "fenced d =
     Seq (Chr d) (Seq (Chr d) (Seq (Chr d)
       (Seq (Group (Plus (NotChr d))) (Seq (Chr d) (Seq (Chr d) (Chr d))))))"

definition convertBold :: "jsstring \<Rightarrow> jsstring" where
  "convertBold text = replace_g (delimited 0x2A) (\<lambda>match content. toBoldUnicode content) text"

definition convertItalic :: "jsstring \<Rightarrow> jsstring" where
  "convertItalic text = replace_g (delimited 0x5F) (\<lambda>match content. toItalicUnicode content) text"

definition convertStrikethrough :: "jsstring \<Rightarrow> jsstring" where
  "convertStrikethrough text =
     replace_g (delimited 0x7E) (\<lambda>match content. toStrikethroughUnicode content) text"

definition convertMonospace :: "jsstring \<Rightarrow> jsstring" where
  "convertMonospace text =
     replace_g (fenced 0x60) (\<lambda>match content. toMonospaceUnicode content) text"

text \<open>
  Modelled from the spec: the four replacement quote characters of \<open>convertQuotes\<close>.
  The source text at hand shows both replacement templates with straight quotes
  around \<open>$1\<close> (the first then replaces a quoted run by itself, the second is not
  a well-formed string literal); its comment and the specification name the curly
  quotes. The properties below use of these four characters only that they are
  neither surrogates nor delimiter or straight quote characters.
\<close>

definition ldquo :: "16 word" where "ldquo = 0x201C"
definition rdquo :: "16 word" where "rdquo = 0x201D"
definition lsquo :: "16 word" where "lsquo = 0x2018"
definition rsquo :: "16 word" where "rsquo = 0x2019"

definition convertQuotes :: "jsstring \<Rightarrow> jsstring" where
  "convertQuotes text =
     (let text = replace_g (delimited 0x22) (\<lambda>match g. [ldquo] @ g @ [rdquo]) text;
          text = replace_g (delimited 0x27) (\<lambda>match g. [lsquo] @ g @ [rsquo]) text
      in text)"

text \<open>
  The classes \<open>\p{Emoji_Presentation}\<close> and \<open>\p{Emoji}\<close> come from the Unicode tables
  of the JavaScript engine, not from the repository: the emoji pass takes them as a
  parameter.
\<close>

record emoji_data =
  Emoji_Presentation :: "nat \<Rightarrow> bool"
  Emoji :: "nat \<Rightarrow> bool"

definition emojiRegex :: "emoji_data \<Rightarrow> jsstring regex" where
  "emojiRegex E =
     Group (Alt (Prop (\<lambda>c. Emoji_Presentation E (cp c)))
                (Seq (Prop (\<lambda>c. Emoji E (cp c))) (Chr [0xFE0F])))"

definition improveEmojiSpacing :: "emoji_data \<Rightarrow> jsstring \<Rightarrow> jsstring" where
  "improveEmojiSpacing E text =
     concat (replace_g (emojiRegex E) (\<lambda>match g. g @ [[0x200B]]) (code_points text))"

definition convertToIOSStyle :: "emoji_data \<Rightarrow> jsstring \<Rightarrow> jsstring" where
  "convertToIOSStyle E text =
     (let styledText = text;
          styledText = convertBold styledText;
          styledText = convertItalic styledText;
          styledText = convertStrikethrough styledText;
          styledText = convertMonospace styledText;
          styledText = convertQuotes styledText;
          styledText = improveEmojiSpacing E styledText
      in styledText)"

section \<open>The emoji classes of Unicode 15\<close>

text \<open>
  The two classes as the Unicode Character Database, version 15.0, gives them
  (\<open>emoji-data.txt\<close>), as inclusive ranges of scalar values.
\<close>

definition in_ranges :: "(nat \<times> nat) list \<Rightarrow> nat \<Rightarrow> bool" where
  "in_ranges rs c = list_ex (\<lambda>(lo, hi). lo \<le> c \<and> c \<le> hi) rs"

definition emoji_presentation_ranges :: "(nat \<times> nat) list" where
  "emoji_presentation_ranges =
    [(0x231A, 0x231B), (0x23E9, 0x23EC), (0x23F0, 0x23F0), (0x23F3, 0x23F3), (0x25FD, 0x25FE),
     (0x2614, 0x2615), (0x2648, 0x2653), (0x267F, 0x267F), (0x2693, 0x2693), (0x26A1, 0x26A1),
     (0x26AA, 0x26AB), (0x26BD, 0x26BE), (0x26C4, 0x26C5), (0x26CE, 0x26CE), (0x26D4, 0x26D4),
     (0x26EA, 0x26EA), (0x26F2, 0x26F3), (0x26F5, 0x26F5), (0x26FA, 0x26FA), (0x26FD, 0x26FD),
     (0x2705, 0x2705), (0x270A, 0x270B), (0x2728, 0x2728), (0x274C, 0x274C), (0x274E, 0x274E),
     (0x2753, 0x2755), (0x2757, 0x2757), (0x2795, 0x2797), (0x27B0, 0x27B0), (0x27BF, 0x27BF),
     (0x2B1B, 0x2B1C), (0x2B50, 0x2B50), (0x2B55, 0x2B55), (0x1F004, 0x1F004), (0x1F0CF, 0x1F0CF),
     (0x1F18E, 0x1F18E), (0x1F191, 0x1F19A), (0x1F1E6, 0x1F1FF), (0x1F201, 0x1F201), (0x1F21A, 0x1F21A),
     (0x1F22F, 0x1F22F), (0x1F232, 0x1F236), (0x1F238, 0x1F23A), (0x1F250, 0x1F251), (0x1F300, 0x1F320),
     (0x1F32D, 0x1F335), (0x1F337, 0x1F37C), (0x1F37E, 0x1F393), (0x1F3A0, 0x1F3CA), (0x1F3CF, 0x1F3D3),
     (0x1F3E0, 0x1F3F0), (0x1F3F4, 0x1F3F4), (0x1F3F8, 0x1F43E), (0x1F440, 0x1F440), (0x1F442, 0x1F4FC),
     (0x1F4FF, 0x1F53D), (0x1F54B, 0x1F54E), (0x1F550, 0x1F567), (0x1F57A, 0x1F57A), (0x1F595, 0x1F596),
     (0x1F5A4, 0x1F5A4), (0x1F5FB, 0x1F64F), (0x1F680, 0x1F6C5), (0x1F6CC, 0x1F6CC), (0x1F6D0, 0x1F6D2),
     (0x1F6D5, 0x1F6D7), (0x1F6DC, 0x1F6DF), (0x1F6EB, 0x1F6EC), (0x1F6F4, 0x1F6FC), (0x1F7E0, 0x1F7EB),
     (0x1F7F0, 0x1F7F0), (0x1F90C, 0x1F93A), (0x1F93C, 0x1F945), (0x1F947, 0x1F9FF), (0x1FA70, 0x1FA7C),
     (0x1FA80, 0x1FA88), (0x1FA90, 0x1FABD), (0x1FABF, 0x1FAC5), (0x1FACE, 0x1FADB), (0x1FAE0, 0x1FAE8),
     (0x1FAF0, 0x1FAF8)]"

definition emoji_ranges :: "(nat \<times> nat) list" where
  "emoji_ranges =
    [(0x23, 0x23), (0x2A, 0x2A), (0x30, 0x39), (0xA9, 0xA9), (0xAE, 0xAE),
     (0x203C, 0x203C), (0x2049, 0x2049), (0x2122, 0x2122), (0x2139, 0x2139), (0x2194, 0x2199),
     (0x21A9, 0x21AA), (0x231A, 0x231B), (0x2328, 0x2328), (0x23CF, 0x23CF), (0x23E9, 0x23F3),
     (0x23F8, 0x23FA), (0x24C2, 0x24C2), (0x25AA, 0x25AB), (0x25B6, 0x25B6), (0x25C0, 0x25C0),
     (0x25FB, 0x25FE), (0x2600, 0x2604), (0x260E, 0x260E), (0x2611, 0x2611), (0x2614, 0x2615),
     (0x2618, 0x2618), (0x261D, 0x261D), (0x2620, 0x2620), (0x2622, 0x2623), (0x2626, 0x2626),
     (0x262A, 0x262A), (0x262E, 0x262F), (0x2638, 0x263A), (0x2640, 0x2640), (0x2642, 0x2642),
     (0x2648, 0x2653), (0x265F, 0x2660), (0x2663, 0x2663), (0x2665, 0x2666), (0x2668, 0x2668),
     (0x267B, 0x267B), (0x267E, 0x267F), (0x2692, 0x2697), (0x2699, 0x2699), (0x269B, 0x269C),
     (0x26A0, 0x26A1), (0x26A7, 0x26A7), (0x26AA, 0x26AB), (0x26B0, 0x26B1), (0x26BD, 0x26BE),
     (0x26C4, 0x26C5), (0x26C8, 0x26C8), (0x26CE, 0x26CF), (0x26D1, 0x26D1), (0x26D3, 0x26D4),
     (0x26E9, 0x26EA), (0x26F0, 0x26F5), (0x26F7, 0x26FA), (0x26FD, 0x26FD), (0x2702, 0x2702),
     (0x2705, 0x2705), (0x2708, 0x270D), (0x270F, 0x270F), (0x2712, 0x2712), (0x2714, 0x2714),
     (0x2716, 0x2716), (0x271D, 0x271D), (0x2721, 0x2721), (0x2728, 0x2728), (0x2733, 0x2734),
     (0x2744, 0x2744), (0x2747, 0x2747), (0x274C, 0x274C), (0x274E, 0x274E), (0x2753, 0x2755),
     (0x2757, 0x2757), (0x2763, 0x2764), (0x2795, 0x2797), (0x27A1, 0x27A1), (0x27B0, 0x27B0),
     (0x27BF, 0x27BF), (0x2934, 0x2935), (0x2B05, 0x2B07), (0x2B1B, 0x2B1C), (0x2B50, 0x2B50),
     (0x2B55, 0x2B55), (0x3030, 0x3030), (0x303D, 0x303D), (0x3297, 0x3297), (0x3299, 0x3299),
     (0x1F004, 0x1F004), (0x1F0CF, 0x1F0CF), (0x1F170, 0x1F171), (0x1F17E, 0x1F17F), (0x1F18E, 0x1F18E),
     (0x1F191, 0x1F19A), (0x1F1E6, 0x1F1FF), (0x1F201, 0x1F202), (0x1F21A, 0x1F21A), (0x1F22F, 0x1F22F),
     (0x1F232, 0x1F23A), (0x1F250, 0x1F251), (0x1F300, 0x1F321), (0x1F324, 0x1F393), (0x1F396, 0x1F397),
     (0x1F399, 0x1F39B), (0x1F39E, 0x1F3F0), (0x1F3F3, 0x1F3F5), (0x1F3F7, 0x1F4FD), (0x1F4FF, 0x1F53D),
     (0x1F549, 0x1F54E), (0x1F550, 0x1F567), (0x1F56F, 0x1F570), (0x1F573, 0x1F57A), (0x1F587, 0x1F587),
     (0x1F58A, 0x1F58D), (0x1F590, 0x1F590), (0x1F595, 0x1F596), (0x1F5A4, 0x1F5A5), (0x1F5A8, 0x1F5A8),
     (0x1F5B1, 0x1F5B2), (0x1F5BC, 0x1F5BC), (0x1F5C2, 0x1F5C4), (0x1F5D1, 0x1F5D3), (0x1F5DC, 0x1F5DE),
     (0x1F5E1, 0x1F5E1), (0x1F5E3, 0x1F5E3), (0x1F5E8, 0x1F5E8), (0x1F5EF, 0x1F5EF), (0x1F5F3, 0x1F5F3),
     (0x1F5FA, 0x1F64F), (0x1F680, 0x1F6C5), (0x1F6CB, 0x1F6D2), (0x1F6D5, 0x1F6D7), (0x1F6DC, 0x1F6E5),
     (0x1F6E9, 0x1F6E9), (0x1F6EB, 0x1F6EC), (0x1F6F0, 0x1F6F0), (0x1F6F3, 0x1F6FC), (0x1F7E0, 0x1F7EB),
     (0x1F7F0, 0x1F7F0), (0x1F90C, 0x1F93A), (0x1F93C, 0x1F945), (0x1F947, 0x1F9FF), (0x1FA70, 0x1FA7C),
     (0x1FA80, 0x1FA88), (0x1FA90, 0x1FABD), (0x1FABF, 0x1FAC5), (0x1FACE, 0x1FADB), (0x1FAE0, 0x1FAE8),
     (0x1FAF0, 0x1FAF8)]"

definition unicode15 :: emoji_data where
  "unicode15 =
     \<lparr>Emoji_Presentation = in_ranges emoji_presentation_ranges,
      Emoji = in_ranges emoji_ranges\<rparr>"


section \<open>Notions the properties are stated with\<close>

text \<open>The text holds three \<open>d\<close> in a row somewhere (for the backtick: a fence).\<close>

fun has_fence :: "'a \<Rightarrow> 'a list \<Rightarrow> bool" where
  "has_fence d (a # b # c # t) = ((a = d \<and> b = d \<and> c = d) \<or> has_fence d (b # c # t))"
| "has_fence d _ = False"

text \<open>
  The search of \<open>replace_g\<close>, started on \<open>s\<close>, comes to stand on the suffix \<open>t\<close>: it
  begins an attempt there, so \<open>t\<close> does not begin inside a match found before.
\<close>

function reaches :: "'a regex \<Rightarrow> 'a list \<Rightarrow> 'a list \<Rightarrow> bool" where
  "reaches r [] t = (t = [])"
| "reaches r (x # xs) t =
     (t = x # xs \<or>
      (case exec_at r (x # xs) of
         None \<Rightarrow> reaches r xs t
       | Some (m, g) \<Rightarrow>
           if m = [] then reaches r xs t else reaches r (drop (length m - 1) xs) t))"
  by pat_completeness auto
termination
  by (relation "measure (\<lambda>(r, s, t). length s)") auto

text \<open>
  No code point of the text is classified as an emoji: none has the emoji
  presentation, and none is an emoji character with the variation selector U+FE0F
  right after it.
\<close>

fun emoji_free :: "emoji_data \<Rightarrow> jsstring list \<Rightarrow> bool" where
  "emoji_free E [] = True"
| "emoji_free E (x # xs) =
     (\<not> Emoji_Presentation E (cp x) \<and> \<not> (Emoji E (cp x) \<and> take 1 xs = [[0xFE0F]])
      \<and> emoji_free E xs)"

text \<open>
  The emoji pass as the property states it: \<open>k\<close> zero-width spaces after every code
  point with the emoji presentation and after every emoji character followed by
  U+FE0F (after the selector), everything else as it is.
\<close>

fun spaced :: "nat \<Rightarrow> emoji_data \<Rightarrow> jsstring list \<Rightarrow> jsstring list" where
  "spaced k E [] = []"
| "spaced k E (x # xs) =
     (if Emoji_Presentation E (cp x) then x # replicate k [0x200B] @ spaced k E xs
      else if Emoji E (cp x) \<and> take 1 xs = [[0xFE0F]]
      then x # [0xFE0F] # replicate k [0x200B] @ spaced k E (tl xs)
      else x # spaced k E xs)"

text \<open>
  The styled glyphs of a text: its code points that are values of the bold, italic or
  monospace table, in their order.
\<close>

definition styled :: "jsstring \<Rightarrow> bool" where
  "styled c = (c \<in> set (map snd (boldMap @ italicMap @ monospaceMap)))"

definition styled_glyphs :: "jsstring \<Rightarrow> jsstring list" where
  "styled_glyphs s = filter styled (code_points s)"

text \<open>Two code units are the same, or neither of them is a surrogate.\<close>

definition same_or_plain :: "16 word \<Rightarrow> 16 word \<Rightarrow> bool" where
  "same_or_plain a b =
     (a = b \<or> (\<not> is_high a \<and> \<not> is_low a \<and> \<not> is_high b \<and> \<not> is_low b))"

section \<open>What the patterns match\<close>

lemma atom_Nil [simp]: "atom p ([], g) = []"
  by (simp add: atom_def)

lemma atom_Cons [simp]: "atom p (x # xs, g) = (if p x then [(xs, g)] else [])"
  by (simp add: atom_def)

lemma repeat0_atom_Nil [simp]: "repeat0 (atom p) ([], g) = [([], g)]"
  by (subst repeat0.simps) simp

lemma repeat0_atom_Cons [simp]:
  "repeat0 (atom p) (x # xs, g) =
     (if p x then repeat0 (atom p) (xs, g) else []) @ [(x # xs, g)]"
  by (subst repeat0.simps) simp

lemma repeat1_atom_Nil [simp]: "repeat1 (atom p) ([], g) = []"
  by (simp add: repeat1_def)

lemma repeat1_atom_Cons [simp]:
  "repeat1 (atom p) (x # xs, g) = (if p x then repeat0 (atom p) (xs, g) else [])"
  by (simp add: repeat1_def)

text \<open>
  After a greedy run of characters other than \<open>d\<close>, a continuation that asks for \<open>d\<close>
  first can only succeed at the end of the longest run: every shorter run is followed
  by a character of the run.
\<close>

lemma run_then:
  assumes k: "\<And>s c. s = [] \<or> hd s \<noteq> d \<Longrightarrow> k (s, c) = []"
  shows "concat (map (\<lambda>st'. k (fst st', Some (take (length (pre @ xs) - length (fst st')) (pre @ xs))))
                     (repeat0 (atom (\<lambda>y. y \<noteq> d)) (xs, g)))
         = k (dropWhile (\<lambda>y. y \<noteq> d) xs, Some (pre @ takeWhile (\<lambda>y. y \<noteq> d) xs))"
proof (induction xs arbitrary: pre)
  case Nil
  show ?case by simp
next
  case (Cons x xs)
  show ?case
  proof (cases "x = d")
    case True
    then show ?thesis by simp
  next
    case False
    have "k (x # xs, Some pre) = []" using False k [of "x # xs" "Some pre"] by simp
    then show ?thesis
      using False Cons.IH [of "pre @ [x]"] by simp
  qed
qed

lemma ms_group_run:
  assumes k: "\<And>s c. s = [] \<or> hd s \<noteq> d \<Longrightarrow> ms r (s, c) = []"
  shows "ms (Seq (Group (Plus (NotChr d))) r) (xs, g)
         = (if takeWhile (\<lambda>y. y \<noteq> d) xs = [] then []
            else ms r (dropWhile (\<lambda>y. y \<noteq> d) xs, Some (takeWhile (\<lambda>y. y \<noteq> d) xs)))"
proof (cases xs)
  case Nil
  then show ?thesis by simp
next
  case (Cons x t)
  show ?thesis
  proof (cases "x = d")
    case True
    with Cons show ?thesis by simp
  next
    case False
    then show ?thesis
      using Cons run_then [of d "ms r" "[x]" t g, OF k] by (simp add: comp_def)
  qed
qed

lemma demands_Chr: "s = [] \<or> hd s \<noteq> d \<Longrightarrow> ms (Chr d) (s, c) = []"
  by (cases s) auto

lemma ms_Chr_dropWhile:
  "ms (Chr d) (dropWhile (\<lambda>y. y \<noteq> d) xs, c) =
     (if dropWhile (\<lambda>y. y \<noteq> d) xs = [] then [] else [(tl (dropWhile (\<lambda>y. y \<noteq> d) xs), c)])"
proof (cases "dropWhile (\<lambda>y. y \<noteq> d) xs")
  case Nil
  show ?thesis unfolding Nil by simp
next
  case (Cons y ys)
  then have "y = d" using hd_dropWhile [of "\<lambda>y. y \<noteq> d" xs] by simp
  with Cons show ?thesis by simp
qed

lemma ms_delimited:
  "ms (delimited d) (s, g) =
     (case s of [] \<Rightarrow> []
      | x # xs \<Rightarrow>
          if x = d \<and> takeWhile (\<lambda>y. y \<noteq> d) xs \<noteq> [] \<and> dropWhile (\<lambda>y. y \<noteq> d) xs \<noteq> []
          then [(tl (dropWhile (\<lambda>y. y \<noteq> d) xs), Some (takeWhile (\<lambda>y. y \<noteq> d) xs))]
          else [])"
proof (cases s)
  case Nil
  then show ?thesis by (simp add: delimited_def)
next
  case (Cons x xs)
  have "ms (delimited d) (x # xs, g) =
          (if x = d then ms (Seq (Group (Plus (NotChr d))) (Chr d)) (xs, g) else [])"
    by (simp add: delimited_def)
  also have "ms (Seq (Group (Plus (NotChr d))) (Chr d)) (xs, g) =
      (if takeWhile (\<lambda>y. y \<noteq> d) xs = [] then []
       else ms (Chr d) (dropWhile (\<lambda>y. y \<noteq> d) xs, Some (takeWhile (\<lambda>y. y \<noteq> d) xs)))"
    by (rule ms_group_run) (rule demands_Chr)
  finally show ?thesis
    using Cons by (auto simp: ms_Chr_dropWhile simp del: ms.simps)
qed

lemma exec_at_delimited:
  "exec_at (delimited d) s =
     (case s of [] \<Rightarrow> None
      | x # xs \<Rightarrow>
          if x = d \<and> takeWhile (\<lambda>y. y \<noteq> d) xs \<noteq> [] \<and> dropWhile (\<lambda>y. y \<noteq> d) xs \<noteq> []
          then Some (d # takeWhile (\<lambda>y. y \<noteq> d) xs @ [d], takeWhile (\<lambda>y. y \<noteq> d) xs)
          else None)"
proof (cases s)
  case Nil
  then show ?thesis by (simp add: exec_at_def ms_delimited)
next
  case (Cons x xs)
  let ?run = "takeWhile (\<lambda>y. y \<noteq> d) xs" and ?rest = "dropWhile (\<lambda>y. y \<noteq> d) xs"
  show ?thesis
  proof (cases "x = d \<and> ?run \<noteq> [] \<and> ?rest \<noteq> []")
    case False
    then show ?thesis using Cons by (auto simp: exec_at_def ms_delimited)
  next
    case True
    then obtain t where t: "?rest = d # t"
      using hd_dropWhile [of "\<lambda>y. y \<noteq> d" xs] by (cases ?rest) auto
    have xs: "xs = ?run @ d # t" using t takeWhile_dropWhile_id [of "\<lambda>y. y \<noteq> d" xs] by simp
    have "take (length (x # xs) - length t) (x # xs) = d # ?run @ [d]"
      using True by (subst (1 2) xs) simp
    then show ?thesis using Cons True t by (simp add: exec_at_def ms_delimited)
  qed
qed

lemma replace_g_delimited_Nil [simp]: "replace_g (delimited d) f [] = []"
  by (simp add: exec_at_delimited)

lemma replace_g_delimited_Cons:
  "replace_g (delimited d) f (x # xs) =
     (if x = d \<and> takeWhile (\<lambda>y. y \<noteq> d) xs \<noteq> [] \<and> dropWhile (\<lambda>y. y \<noteq> d) xs \<noteq> []
      then f (d # takeWhile (\<lambda>y. y \<noteq> d) xs @ [d]) (takeWhile (\<lambda>y. y \<noteq> d) xs)
           @ replace_g (delimited d) f (tl (dropWhile (\<lambda>y. y \<noteq> d) xs))
      else x # replace_g (delimited d) f xs)"
proof -
  have "drop (Suc (length (takeWhile (\<lambda>y. y \<noteq> d) xs))) xs = tl (dropWhile (\<lambda>y. y \<noteq> d) xs)"
    by (simp add: dropWhile_eq_drop drop_Suc tl_drop)
  then show ?thesis by (simp add: exec_at_delimited)
qed


lemma ms_three:
  "ms (Seq (Chr d) (Seq (Chr d) (Chr d))) (s, c) =
     (if take 3 s = [d, d, d] then [(drop 3 s, c)] else [])"
proof (cases s)
  case Nil
  then show ?thesis by simp
next
  case s1: (Cons x1 t1)
  show ?thesis
  proof (cases t1)
    case Nil
    with s1 show ?thesis by simp
  next
    case s2: (Cons x2 t2)
    show ?thesis
    proof (cases t2)
      case Nil
      with s1 s2 show ?thesis by simp
    next
      case (Cons x3 t3)
      with s1 s2 show ?thesis by (simp add: numeral_3_eq_3)
    qed
  qed
qed

lemma ms_open_three:
  "ms (Seq (Chr d) (Seq (Chr d) (Seq (Chr d) r))) (s, c) =
     (if take 3 s = [d, d, d] then ms r (drop 3 s, c) else [])"
proof (cases s)
  case Nil
  then show ?thesis by simp
next
  case s1: (Cons x1 t1)
  show ?thesis
  proof (cases t1)
    case Nil
    with s1 show ?thesis by simp
  next
    case s2: (Cons x2 t2)
    show ?thesis
    proof (cases t2)
      case Nil
      with s1 s2 show ?thesis by simp
    next
      case (Cons x3 t3)
      with s1 s2 show ?thesis by (simp add: numeral_3_eq_3)
    qed
  qed
qed

lemma demands_three:
  "s = [] \<or> hd s \<noteq> d \<Longrightarrow> ms (Seq (Chr d) (Seq (Chr d) (Chr d))) (s, c) = []"
  by (cases s) auto

lemma ms_fenced:
  "ms (fenced d) (s, g) =
     (if take 3 s = [d, d, d] \<and> takeWhile (\<lambda>y. y \<noteq> d) (drop 3 s) \<noteq> [] \<and>
         take 3 (dropWhile (\<lambda>y. y \<noteq> d) (drop 3 s)) = [d, d, d]
      then [(drop 3 (dropWhile (\<lambda>y. y \<noteq> d) (drop 3 s)),
             Some (takeWhile (\<lambda>y. y \<noteq> d) (drop 3 s)))]
      else [])"
proof -
  let ?body = "Seq (Group (Plus (NotChr d))) (Seq (Chr d) (Seq (Chr d) (Chr d)))"
  have "ms (fenced d) (s, g) = (if take 3 s = [d, d, d] then ms ?body (drop 3 s, g) else [])"
    unfolding fenced_def by (rule ms_open_three)
  also have "ms ?body (drop 3 s, g) =
      (if takeWhile (\<lambda>y. y \<noteq> d) (drop 3 s) = [] then []
       else ms (Seq (Chr d) (Seq (Chr d) (Chr d)))
              (dropWhile (\<lambda>y. y \<noteq> d) (drop 3 s), Some (takeWhile (\<lambda>y. y \<noteq> d) (drop 3 s))))"
    by (rule ms_group_run) (rule demands_three)
  finally show ?thesis
    by (simp only: ms_three) simp
qed

lemma exec_at_fenced:
  "exec_at (fenced d) s =
     (if take 3 s = [d, d, d] \<and> takeWhile (\<lambda>y. y \<noteq> d) (drop 3 s) \<noteq> [] \<and>
         take 3 (dropWhile (\<lambda>y. y \<noteq> d) (drop 3 s)) = [d, d, d]
      then Some ([d, d, d] @ takeWhile (\<lambda>y. y \<noteq> d) (drop 3 s) @ [d, d, d],
                 takeWhile (\<lambda>y. y \<noteq> d) (drop 3 s))
      else None)"
proof -
  define run where "run = takeWhile (\<lambda>y. y \<noteq> d) (drop 3 s)"
  define rest where "rest = dropWhile (\<lambda>y. y \<noteq> d) (drop 3 s)"
  define t where "t = drop 3 rest"
  have ms: "ms (fenced d) (s, None) =
      (if take 3 s = [d, d, d] \<and> run \<noteq> [] \<and> take 3 rest = [d, d, d] then [(t, Some run)] else [])"
    by (simp only: ms_fenced run_def rest_def t_def)
  have "exec_at (fenced d) s =
     (if take 3 s = [d, d, d] \<and> run \<noteq> [] \<and> take 3 rest = [d, d, d]
      then Some ([d, d, d] @ run @ [d, d, d], run) else None)"
  proof (cases "take 3 s = [d, d, d] \<and> run \<noteq> [] \<and> take 3 rest = [d, d, d]")
    case False
    then show ?thesis
      unfolding exec_at_def ms by auto
  next
    case True
    have "s = take 3 s @ drop 3 s" by simp
    also have "drop 3 s = run @ rest" by (simp add: run_def rest_def)
    also have "rest = take 3 rest @ t" by (simp add: t_def)
    finally have s: "s = [d, d, d] @ run @ [d, d, d] @ t" using True by simp
    define m where "m = [d, d, d] @ run @ [d, d, d]"
    have s': "s = m @ t" using s by (simp add: m_def)
    have "take (length s - length t) s = m"
      unfolding s' by simp
    then have "take (length s - length t) s = [d, d, d] @ run @ [d, d, d]"
      by (simp only: m_def)
    then show ?thesis
      using True unfolding exec_at_def ms by simp
  qed
  then show ?thesis by (simp only: run_def rest_def)
qed

lemma replace_g_fenced_Nil [simp]: "replace_g (fenced d) f [] = []"
  by (simp add: exec_at_fenced)

lemma replace_g_fenced_Cons:
  "replace_g (fenced d) f (x # xs) =
     (if take 3 (x # xs) = [d, d, d] \<and> takeWhile (\<lambda>y. y \<noteq> d) (drop 2 xs) \<noteq> [] \<and>
         take 3 (dropWhile (\<lambda>y. y \<noteq> d) (drop 2 xs)) = [d, d, d]
      then f ([d, d, d] @ takeWhile (\<lambda>y. y \<noteq> d) (drop 2 xs) @ [d, d, d])
             (takeWhile (\<lambda>y. y \<noteq> d) (drop 2 xs))
           @ replace_g (fenced d) f (drop 3 (dropWhile (\<lambda>y. y \<noteq> d) (drop 2 xs)))
      else x # replace_g (fenced d) f xs)"
proof -
  define run where "run = takeWhile (\<lambda>y. y \<noteq> d) (drop 2 xs)"
  define rest where "rest = dropWhile (\<lambda>y. y \<noteq> d) (drop 2 xs)"
  have d3: "drop 3 (x # xs) = drop 2 xs" by (simp add: numeral_3_eq_3 numeral_2_eq_2)
  have ex: "exec_at (fenced d) (x # xs) =
      (if take 3 (x # xs) = [d, d, d] \<and> run \<noteq> [] \<and> take 3 rest = [d, d, d]
       then Some ([d, d, d] @ run @ [d, d, d], run) else None)"
    by (simp only: exec_at_fenced d3 run_def rest_def)
  have "drop (length ([d, d, d] @ run @ [d, d, d]) - 1) xs = drop 3 rest"
  proof -
    have n: "length ([d, d, d] @ run @ [d, d, d]) - 1 = length run + 5" by simp
    have "drop (length run + 5) xs = drop 3 (drop (length run) (drop 2 xs))"
      by (simp add: ac_simps)
    then have "drop (length ([d, d, d] @ run @ [d, d, d]) - 1) xs = drop 3 (drop (length run) (drop 2 xs))"
      by (simp only: n)
    also have "drop (length run) (drop 2 xs) = rest"
      by (simp add: run_def rest_def dropWhile_eq_drop)
    finally show ?thesis .
  qed
  then have "replace_g (fenced d) f (x # xs) =
     (if take 3 (x # xs) = [d, d, d] \<and> run \<noteq> [] \<and> take 3 rest = [d, d, d]
      then f ([d, d, d] @ run @ [d, d, d]) run @ replace_g (fenced d) f (drop 3 rest)
      else x # replace_g (fenced d) f xs)"
    by (simp only: replace_g.simps ex) simp
  then show ?thesis by (simp only: run_def rest_def)
qed

lemma exec_at_emojiRegex:
  "exec_at (emojiRegex E) s =
     (case s of [] \<Rightarrow> None
      | x # xs \<Rightarrow>
          if Emoji_Presentation E (cp x) then Some ([x], [x])
          else if Emoji E (cp x) \<and> take 1 xs = [[0xFE0F]] then Some ([x, [0xFE0F]], [x, [0xFE0F]])
          else None)"
proof (cases s)
  case Nil
  then show ?thesis by (simp add: exec_at_def emojiRegex_def)
next
  case s: (Cons x xs)
  show ?thesis
  proof (cases xs)
    case Nil
    with s show ?thesis by (simp add: exec_at_def emojiRegex_def)
  next
    case (Cons y ys)
    with s show ?thesis by (simp add: exec_at_def emojiRegex_def)
  qed
qed

lemma replace_g_emoji_Nil [simp]: "replace_g (emojiRegex E) f [] = []"
  by (simp add: exec_at_emojiRegex)

lemma replace_g_emoji_Cons:
  "replace_g (emojiRegex E) f (x # xs) =
     (if Emoji_Presentation E (cp x) then f [x] [x] @ replace_g (emojiRegex E) f xs
      else if Emoji E (cp x) \<and> take 1 xs = [[0xFE0F]]
      then f [x, [0xFE0F]] [x, [0xFE0F]] @ replace_g (emojiRegex E) f (tl xs)
      else x # replace_g (emojiRegex E) f xs)"
  by (simp add: exec_at_emojiRegex drop_Suc)

declare replace_g.simps [simp del]

text \<open>The equations that evaluate the passes on a given text.\<close>

lemmas pass_eval =
  convertToIOSStyle_def convertBold_def convertItalic_def convertStrikethrough_def
  convertMonospace_def convertQuotes_def improveEmojiSpacing_def
  replace_g_delimited_Cons replace_g_fenced_Cons replace_g_emoji_Cons
  toBoldUnicode_def toItalicUnicode_def toStrikethroughUnicode_def toMonospaceUnicode_def
  lookup_or_def js_def is_high_def is_low_def Let_def

lemmas unicode15_eval =
  unicode15_def in_ranges_def emoji_presentation_ranges_def emoji_ranges_def

lemma run_upto: "d \<notin> set g \<Longrightarrow> takeWhile (\<lambda>y. y \<noteq> d) (g @ d # r) = g"
  by (induction g) auto

lemma rest_from: "d \<notin> set g \<Longrightarrow> dropWhile (\<lambda>y. y \<noteq> d) (g @ d # r) = d # r"
  by (induction g) auto

lemma lookup_or_outside: "c \<notin> fst ` set table \<Longrightarrow> lookup_or table c = [c]"
proof -
  assume "c \<notin> fst ` set table"
  then have "map_of table c = None" by (simp add: map_of_eq_None_iff)
  then show ?thesis by (simp add: lookup_or_def)
qed


section \<open>Texts without a span\<close>

lemma replace_g_delimited_skip:
  "d \<noteq> x \<Longrightarrow> replace_g (delimited d) f (x # xs) = x # replace_g (delimited d) f xs"
  by (auto simp: replace_g_delimited_Cons)

lemma replace_g_fenced_skip:
  "d \<noteq> x \<Longrightarrow> replace_g (fenced d) f (x # xs) = x # replace_g (fenced d) f xs"
  by (auto simp: replace_g_fenced_Cons)

lemma replace_g_delimited_id: "d \<notin> set s \<Longrightarrow> replace_g (delimited d) f s = s"
  by (induction s) (simp_all add: replace_g_delimited_skip)

lemma replace_g_delimited_lone:
  assumes "d \<notin> set pre" and "d \<notin> set rest"
  shows "replace_g (delimited d) f (pre @ d # rest) = pre @ d # rest"
  using assms
proof (induction pre)
  case Nil
  then have "dropWhile (\<lambda>y. y \<noteq> d) rest = []" by auto
  then have "replace_g (delimited d) f (d # rest) = d # replace_g (delimited d) f rest"
    by (simp add: replace_g_delimited_Cons)
  then show ?case using Nil by (simp add: replace_g_delimited_id)
next
  case (Cons x pre)
  then show ?case by (simp add: replace_g_delimited_skip)
qed

lemma has_fence_Cons: "has_fence d t \<Longrightarrow> has_fence d (x # t)"
  by (induction d t rule: has_fence.induct) auto

lemma has_fence_drop: "has_fence d (drop n s) \<Longrightarrow> has_fence d s"
proof (induction n arbitrary: s)
  case 0
  then show ?case by simp
next
  case (Suc n)
  show ?case
  proof (cases s)
    case Nil
    with Suc.prems show ?thesis by simp
  next
    case (Cons x t)
    with Suc show ?thesis by (simp add: has_fence_Cons)
  qed
qed

lemma has_fence_take: "take 3 u = [d, d, d] \<Longrightarrow> has_fence d u"
  by (cases "(d, u)" rule: has_fence.cases) (auto simp: numeral_3_eq_3)

lemma no_fence_no_match:
  assumes "\<not> has_fence d (drop 3 xs)"
  shows "\<not> (takeWhile (\<lambda>y. y \<noteq> d) (drop 2 xs) \<noteq> [] \<and>
            take 3 (dropWhile (\<lambda>y. y \<noteq> d) (drop 2 xs)) = [d, d, d])"
proof
  define run where "run = takeWhile (\<lambda>y. y \<noteq> d) (drop 2 xs)"
  define rest where "rest = dropWhile (\<lambda>y. y \<noteq> d) (drop 2 xs)"
  assume "takeWhile (\<lambda>y. y \<noteq> d) (drop 2 xs) \<noteq> [] \<and>
            take 3 (dropWhile (\<lambda>y. y \<noteq> d) (drop 2 xs)) = [d, d, d]"
  then have m: "run \<noteq> []" "take 3 rest = [d, d, d]" by (simp_all add: run_def rest_def)
  then obtain k where k: "length run = Suc k" by (cases run) auto
  have "rest = drop (length run) (drop 2 xs)" by (simp add: run_def rest_def dropWhile_eq_drop)
  also have "\<dots> = drop (Suc k + 2) xs" by (simp only: k drop_drop)
  finally have r: "rest = drop (Suc k + 2) xs" .
  have "Suc k + 2 = k + 3" by simp
  then have "rest = drop k (drop 3 xs)" using r by (simp only: drop_drop)
  moreover have "has_fence d rest" using m(2) by (rule has_fence_take)
  ultimately have "has_fence d (drop 3 xs)" using has_fence_drop [of d k "drop 3 xs"] by simp
  then show False using assms by simp
qed


lemma replace_g_fenced_id: "\<not> has_fence d (drop 4 s) \<Longrightarrow> replace_g (fenced d) f s = s"
proof (induction s)
  case Nil
  show ?case by simp
next
  case (Cons x xs)
  have d4: "drop 4 (x # xs) = drop 3 xs" by (simp add: numeral_3_eq_3 numeral_Bit0)
  have "drop 4 xs = drop 1 (drop 3 xs)" by simp
  then have "\<not> has_fence d (drop 4 xs)" using Cons.prems d4 has_fence_drop [of d 1 "drop 3 xs"] by auto
  then have "replace_g (fenced d) f xs = xs" by (rule Cons.IH)
  moreover have "\<not> has_fence d (drop 3 xs)" using Cons.prems d4 by simp
  then have "\<not> (takeWhile (\<lambda>y. y \<noteq> d) (drop 2 xs) \<noteq> [] \<and>
            take 3 (dropWhile (\<lambda>y. y \<noteq> d) (drop 2 xs)) = [d, d, d])"
    by (rule no_fence_no_match)
  ultimately show ?case by (simp only: replace_g_fenced_Cons) simp
qed

lemma replace_g_fenced_plain: "d \<notin> set s \<Longrightarrow> replace_g (fenced d) f s = s"
  by (induction s) (simp_all add: replace_g_fenced_skip)

lemma replace_g_fenced_lone:
  assumes "d \<notin> set pre" and "\<not> has_fence d rest"
  shows "replace_g (fenced d) f (pre @ [d, d, d] @ rest) = pre @ [d, d, d] @ rest"
  using assms
proof (induction pre)
  case Nil
  have "drop 4 ([d, d, d] @ rest) = drop 1 rest" by (simp add: numeral_Bit0)
  then have "\<not> has_fence d (drop 4 ([d, d, d] @ rest))"
    using Nil has_fence_drop [of d 1 rest] by auto
  then have "replace_g (fenced d) f ([d, d, d] @ rest) = [d, d, d] @ rest"
    by (rule replace_g_fenced_id)
  then show ?case by simp
next
  case (Cons x pre)
  then show ?case by (simp add: replace_g_fenced_skip)
qed

lemma concat_code_points: "concat (code_points s) = s"
  by (induction s rule: code_points.induct) auto

lemma replace_g_emoji_id: "emoji_free E ys \<Longrightarrow> replace_g (emojiRegex E) f ys = ys"
  by (induction ys) (auto simp: replace_g_emoji_Cons)


lemma reaches_replace_g:
  "reaches r s t \<Longrightarrow> \<exists>w. replace_g r f s = w @ replace_g r f t"
proof (induction r s t rule: reaches.induct)
  case (1 r t)
  then show ?case by simp
next
  case (2 r x xs t)
  show ?case
  proof (cases "t = x # xs")
    case True
    then show ?thesis by simp
  next
    case here: False
    show ?thesis
    proof (cases "exec_at r (x # xs)")
      case None
      then have "reaches r xs t" using "2.prems" here by simp
      then obtain w where "replace_g r f xs = w @ replace_g r f t" using "2.IH"(1) None by blast
      then have "replace_g r f (x # xs) = (x # w) @ replace_g r f t"
        using None by (simp add: replace_g.simps)
      then show ?thesis by blast
    next
      case (Some mg)
      obtain m g where mg: "mg = (m, g)" by (cases mg)
      show ?thesis
      proof (cases "m = []")
        case True
        then have "reaches r xs t" using "2.prems" here Some mg by simp
        then obtain w where "replace_g r f xs = w @ replace_g r f t"
          using "2.IH"(2) Some mg True by blast
        then have "replace_g r f (x # xs) = (f m g @ x # w) @ replace_g r f t"
          using Some mg True by (simp add: replace_g.simps)
        then show ?thesis by blast
      next
        case False
        then have "reaches r (drop (length m - 1) xs) t" using "2.prems" here Some mg by simp
        then obtain w where "replace_g r f (drop (length m - 1) xs) = w @ replace_g r f t"
          using "2.IH"(3) Some mg False by blast
        then have "replace_g r f (x # xs) = (f m g @ w) @ replace_g r f t"
          using Some mg False by (simp add: replace_g.simps)
        then show ?thesis by blast
      qed
    qed
  qed
qed

lemma replace_g_delimited_open:
  "d \<notin> set rest \<Longrightarrow> replace_g (delimited d) f (d # rest) = d # rest"
  using replace_g_delimited_lone [of d "[]" rest f] by simp

lemma replace_g_fenced_open:
  "\<not> has_fence d rest \<Longrightarrow> replace_g (fenced d) f ([d, d, d] @ rest) = [d, d, d] @ rest"
  using replace_g_fenced_lone [of d "[]" rest f] by simp

lemma reaches_delimited_open:
  assumes "reaches (delimited d) text (d # rest)" and "d \<notin> set rest"
  shows "\<exists>w. replace_g (delimited d) f text = w @ d # rest"
  using reaches_replace_g [OF assms(1), of f] replace_g_delimited_open [OF assms(2), of f] by simp

lemma reaches_fenced_open:
  assumes "reaches (fenced d) text ([d, d, d] @ rest)" and "\<not> has_fence d rest"
  shows "\<exists>w. replace_g (fenced d) f text = w @ [d, d, d] @ rest"
  using reaches_replace_g [OF assms(1), of f] replace_g_fenced_open [OF assms(2), of f] by simp


section \<open>Code points and the emoji pass\<close>

lemma replace_g_emoji_spaced:
  "replace_g (emojiRegex E) (\<lambda>match g. g @ [[0x200B]]) ys = spaced 1 E ys"
  by (induction "1::nat" E ys rule: spaced.induct) (simp_all add: replace_g_emoji_Cons)

lemma zwsp_plain [simp]: "\<not> is_high 0x200B" "\<not> is_low 0x200B" "\<not> is_high 0xFE0F" "\<not> is_low 0xFE0F"
  by (simp_all add: is_high_def is_low_def)

lemma code_points_not_high: "\<not> is_high u \<Longrightarrow> code_points (u # w) = [u] # code_points w"
  by (cases w) auto

lemma code_points_not_low: "\<not> is_low v \<Longrightarrow> code_points (u # v # w) = [u] # code_points (v # w)"
  by simp

lemma code_points_zwsps:
  "code_points (replicate k 0x200B @ w) = replicate k [0x200B] @ code_points w"
  by (induction k) (simp_all add: code_points_not_high)

lemma code_points_then_zwsps:
  "0 < k \<Longrightarrow> code_points (u # replicate k 0x200B @ w) = [u] # replicate k [0x200B] @ code_points w"
proof -
  assume "0 < k"
  then obtain j where k: "k = Suc j" by (cases k) auto
  have "code_points (u # 0x200B # replicate j 0x200B @ w) = [u] # code_points (0x200B # replicate j 0x200B @ w)"
    by (rule code_points_not_low) simp
  also have "0x200B # replicate j 0x200B @ w = replicate k 0x200B @ w" by (simp add: k)
  also have "code_points (replicate k 0x200B @ w) = replicate k [0x200B] @ code_points w"
    by (rule code_points_zwsps)
  finally show ?thesis by (simp add: k)
qed

lemma concat_zwsps [simp]: "concat (replicate k [c]) = replicate k c"
  by (induction k) auto

lemma take1_code_points:
  assumes "take 1 (code_points t) = [[c]]"
  shows "\<exists>t'. t = c # t' \<and> code_points t = [c] # code_points t'"
proof (cases t rule: code_points.cases)
  case 1
  with assms show ?thesis by simp
next
  case (2 u)
  with assms show ?thesis by simp
next
  case (3 u v s)
  with assms show ?thesis by (auto split: if_splits)
qed

lemma spaced_head: "\<exists>w. concat (spaced k E (code_points (v # t))) = v # w"
proof (cases t)
  case Nil
  then show ?thesis by simp
next
  case (Cons a t')
  then show ?thesis by simp
qed


lemma code_points_spaced:
  assumes "0 < k"
  shows "code_points (concat (spaced k E (code_points s))) = spaced k E (code_points s)"
proof (induction "length s" arbitrary: s rule: less_induct)
  case less
  show ?case
  proof (cases s rule: code_points.cases)
    case 1
    then show ?thesis by simp
  next
    case (2 u)
    then show ?thesis using assms code_points_then_zwsps [of k u "[]"] by simp
  next
    case (3 u v t)
    have IHt: "code_points (concat (spaced k E (code_points t))) = spaced k E (code_points t)"
      using less [of t] 3 by simp
    have IHvt: "code_points (concat (spaced k E (code_points (v # t))))
                  = spaced k E (code_points (v # t))"
      using less [of "v # t"] 3 by simp
    show ?thesis
    proof (cases "is_high u \<and> is_low v")
      case pair: True
      then have cps: "code_points s = [u, v] # code_points t" using 3 by simp
      consider (ep) "Emoji_Presentation E (cp [u, v])"
        | (vs) "\<not> Emoji_Presentation E (cp [u, v])" "Emoji E (cp [u, v])"
               "take 1 (code_points t) = [[0xFE0F]]"
        | (no) "\<not> Emoji_Presentation E (cp [u, v])"
               "\<not> (Emoji E (cp [u, v]) \<and> take 1 (code_points t) = [[0xFE0F]])"
        by blast
      then show ?thesis
      proof cases
        case ep
        have "code_points (u # v # replicate k 0x200B @ concat (spaced k E (code_points t)))
                = [u, v] # replicate k [0x200B] @ spaced k E (code_points t)"
          using pair IHt by (simp add: code_points_zwsps)
        then show ?thesis using ep cps by simp
      next
        case vs
        then obtain t' where t': "t = 0xFE0F # t'" "code_points t = [0xFE0F] # code_points t'"
          using take1_code_points by blast
        have IH': "code_points (concat (spaced k E (code_points t'))) = spaced k E (code_points t')"
          using less [of t'] 3 t' by simp
        have "code_points (u # v # 0xFE0F # replicate k 0x200B @ concat (spaced k E (code_points t')))
                = [u, v] # [0xFE0F] # replicate k [0x200B] @ spaced k E (code_points t')"
          using pair IH' assms by (simp add: code_points_then_zwsps)
        then show ?thesis using vs cps t' by simp
      next
        case no
        have "code_points (u # v # concat (spaced k E (code_points t)))
                = [u, v] # spaced k E (code_points t)"
          using pair IHt by simp
        then show ?thesis using no cps by auto
      qed
    next
      case lone: False
      then have cps: "code_points s = [u] # code_points (v # t)" using 3 by simp
      consider (ep) "Emoji_Presentation E (cp [u])"
        | (vs) "\<not> Emoji_Presentation E (cp [u])" "Emoji E (cp [u])"
               "take 1 (code_points (v # t)) = [[0xFE0F]]"
        | (no) "\<not> Emoji_Presentation E (cp [u])"
               "\<not> (Emoji E (cp [u]) \<and> take 1 (code_points (v # t)) = [[0xFE0F]])"
        by blast
      then show ?thesis
      proof cases
        case ep
        have "code_points (u # replicate k 0x200B @ concat (spaced k E (code_points (v # t))))
                = [u] # replicate k [0x200B] @ spaced k E (code_points (v # t))"
          using IHvt assms by (simp add: code_points_then_zwsps)
        then show ?thesis using ep cps by simp
      next
        case vs
        then obtain t' where t': "v # t = 0xFE0F # t'"
            "code_points (v # t) = [0xFE0F] # code_points t'"
          using take1_code_points by blast
        then have vt: "v = 0xFE0F" "t' = t" by simp_all
        have "code_points (u # 0xFE0F # replicate k 0x200B @ concat (spaced k E (code_points t)))
                = [u] # code_points (0xFE0F # replicate k 0x200B @ concat (spaced k E (code_points t)))"
          by (rule code_points_not_low) simp
        also have "\<dots> = [u] # [0xFE0F] # replicate k [0x200B] @ spaced k E (code_points t)"
          using IHt assms by (simp add: code_points_then_zwsps)
        finally show ?thesis using vs cps t' vt by simp
      next
        case no
        obtain w where w: "concat (spaced k E (code_points (v # t))) = v # w"
          using spaced_head by blast
        have "code_points (u # v # w) = [u] # code_points (v # w)"
          using lone by simp
        then have "code_points (u # concat (spaced k E (code_points (v # t))))
                = [u] # spaced k E (code_points (v # t))"
          using IHvt w by simp
        then show ?thesis using no cps by auto
      qed
    qed
  qed
qed

lemma improveEmojiSpacing_spaced:
  "improveEmojiSpacing E s = concat (spaced 1 E (code_points s))"
  by (simp add: improveEmojiSpacing_def replace_g_emoji_spaced)

lemma code_points_improveEmojiSpacing:
  "code_points (improveEmojiSpacing E s) = spaced 1 E (code_points s)"
  by (simp add: improveEmojiSpacing_spaced code_points_spaced)

lemma cp_zwsp [simp]: "cp [0x200B] = 0x200B"
  by simp

lemma spaced_zwsps:
  assumes "\<not> Emoji_Presentation E 0x200B" and "\<not> Emoji E 0x200B"
  shows "spaced j E (replicate k [0x200B] @ w) = replicate k [0x200B] @ spaced j E w"
  using assms by (induction k) simp_all

lemma take1_spaced: "take 1 (spaced k E xs) = take 1 xs"
  by (cases xs) simp_all

lemma spaced_spaced:
  assumes "\<not> Emoji_Presentation E 0x200B" and "\<not> Emoji E 0x200B"
  shows "spaced j E (spaced k E ys) = spaced (j + k) E ys"
  using assms
proof (induction k E ys rule: spaced.induct)
  case (1 k E)
  show ?case by simp
next
  case (2 k E x xs)
  consider (ep) "Emoji_Presentation E (cp x)"
    | (vs) "\<not> Emoji_Presentation E (cp x)" "Emoji E (cp x)" "take 1 xs = [[0xFE0F]]"
    | (no) "\<not> Emoji_Presentation E (cp x)" "\<not> (Emoji E (cp x) \<and> take 1 xs = [[0xFE0F]])"
    by blast
  then show ?case
  proof cases
    case ep
    then show ?thesis
      using 2 by (simp add: spaced_zwsps replicate_add)
  next
    case vs
    then show ?thesis
      using 2 by (simp add: spaced_zwsps replicate_add)
  next
    case no
    then show ?thesis
      using 2 take1_spaced [of k E xs] by auto
  qed
qed


lemma take1_eq: "take 1 xs = [a] \<Longrightarrow> xs = a # tl xs"
  by (cases xs) simp_all

lemma set_spaced: "set (concat (spaced k E ys)) \<subseteq> insert 0x200B (set (concat ys))"
proof (induction k E ys rule: spaced.induct)
  case (1 k E)
  show ?case by simp
next
  case (2 k E x xs)
  show ?case
  proof (cases "\<not> Emoji_Presentation E (cp x) \<and> Emoji E (cp x) \<and> take 1 xs = [[0xFE0F]]")
    case True
    then have xs: "xs = [0xFE0F] # tl xs" by (simp add: take1_eq)
    have "set (concat (spaced k E (tl xs))) \<subseteq> insert 0x200B (set (concat (tl xs)))"
      using 2 True by simp
    moreover have "set (concat xs) = insert 0xFE0F (set (concat (tl xs)))"
      by (subst xs) simp
    ultimately show ?thesis using True by auto
  next
    case False
    then show ?thesis using 2 by auto
  qed
qed

lemma length_spaced:
  "length (concat (spaced k E ys)) + (if emoji_free E ys then 0 else j)
     \<le> length (concat (spaced (k + j) E ys))"
proof (induction k E ys rule: spaced.induct)
  case (1 k E)
  show ?case by simp
next
  case (2 k E x xs)
  show ?case
  proof (cases "\<not> Emoji_Presentation E (cp x) \<and> Emoji E (cp x) \<and> take 1 xs = [[0xFE0F]]")
    case True
    have "length (concat (spaced k E (tl xs))) \<le> length (concat (spaced (k + j) E (tl xs)))"
      using 2(2) [of] True by (simp split: if_splits)
    then show ?thesis using True by simp
  next
    case False
    have "length (concat (spaced k E xs)) + (if emoji_free E xs then 0 else j)
            \<le> length (concat (spaced (k + j) E xs))"
      using 2 False by blast
    then show ?thesis using False by (auto split: if_splits)
  qed
qed

lemma spaced_grows:
  assumes "\<not> emoji_free E ys"
  shows "concat (spaced 2 E ys) \<noteq> concat (spaced 1 E ys)"
proof
  assume "concat (spaced 2 E ys) = concat (spaced 1 E ys)"
  then have "length (concat (spaced 2 E ys)) = length (concat (spaced 1 E ys))"
    by (rule arg_cong)
  then show False using length_spaced [of 1 E ys 1, unfolded one_add_one] assms by simp
qed

lemma plain_means:
  "set s \<inter> {0x2A, 0x5F, 0x7E, 0x60, 0x22, 0x27} = {} \<Longrightarrow>
     (0x2A::16 word) \<notin> set s \<and> 0x5F \<notin> set s \<and> 0x7E \<notin> set s \<and> 0x60 \<notin> set s
     \<and> 0x22 \<notin> set s \<and> 0x27 \<notin> set s"
  by auto

lemma convert_plain:
  assumes "set s \<inter> {0x2A, 0x5F, 0x7E, 0x60, 0x22, 0x27} = {}"
  shows "convertToIOSStyle E s = improveEmojiSpacing E s"
  using plain_means [OF assms]
  by (simp add: convertToIOSStyle_def convertBold_def convertItalic_def
        convertStrikethrough_def convertMonospace_def convertQuotes_def
        replace_g_delimited_id replace_g_fenced_plain)

lemma improveEmojiSpacing_plain:
  assumes "set s \<inter> {0x2A, 0x5F, 0x7E, 0x60, 0x22, 0x27} = {}"
  shows "set (improveEmojiSpacing E s) \<inter> {0x2A, 0x5F, 0x7E, 0x60, 0x22, 0x27} = {}"
proof -
  have "set (improveEmojiSpacing E s) \<subseteq> insert 0x200B (set s)"
    using set_spaced [of 1 E "code_points s"]
    by (simp add: improveEmojiSpacing_spaced concat_code_points)
  then show ?thesis using assms by auto
qed

lemma improveEmojiSpacing_twice:
  assumes "\<not> Emoji_Presentation E 0x200B" and "\<not> Emoji E 0x200B"
  shows "improveEmojiSpacing E (improveEmojiSpacing E s) = concat (spaced 2 E (code_points s))"
proof -
  have "improveEmojiSpacing E (improveEmojiSpacing E s)
          = concat (spaced 1 E (spaced 1 E (code_points s)))"
    by (simp only: improveEmojiSpacing_spaced [of E "improveEmojiSpacing E s"]
          code_points_improveEmojiSpacing)
  also have "spaced 1 E (spaced 1 E (code_points s)) = spaced (1 + 1) E (code_points s)"
    using assms by (rule spaced_spaced)
  finally show ?thesis by (simp only: one_add_one)
qed


section \<open>Styled glyphs\<close>

lemma table_values:
  "\<forall>c \<in> set (map snd (boldMap @ italicMap @ monospaceMap)). \<exists>lo. c = [0xD835, lo] \<and> is_low lo"
  by (simp add: boldMap_def italicMap_def monospaceMap_def is_low_def)

lemma table_keys:
  "\<forall>k \<in> set (map fst (boldMap @ italicMap @ monospaceMap)). k < 0x80"
  by (simp add: boldMap_def italicMap_def monospaceMap_def)

lemma styled_pair: "styled c \<Longrightarrow> \<exists>lo. c = [0xD835, lo] \<and> is_low lo"
  using table_values by (simp only: styled_def)

lemma not_styled_single [simp]: "\<not> styled [u]"
  using styled_pair [of "[u]"] by auto

lemma surrogate_no_key:
  assumes "0xD800 \<le> u"
  shows "u \<notin> fst ` set boldMap" "u \<notin> fst ` set italicMap" "u \<notin> fst ` set monospaceMap"
proof -
  have "\<not> u < 0x80" using assms by (simp add: word_le_nat_alt word_less_nat_alt)
  then have "u \<notin> set (map fst (boldMap @ italicMap @ monospaceMap))" using table_keys by blast
  then show "u \<notin> fst ` set boldMap" "u \<notin> fst ` set italicMap" "u \<notin> fst ` set monospaceMap"
    by auto
qed

lemma styled_fixed:
  assumes "styled c"
  shows "toBoldUnicode c = c \<and> toItalicUnicode c = c \<and> toMonospaceUnicode c = c"
proof -
  obtain lo where c: "c = [0xD835, lo]" and lo: "is_low lo" using assms styled_pair by blast
  have hi: "(0xD800::16 word) \<le> 0xD835" by simp
  have lo': "0xD800 \<le> lo"
    using lo by (simp add: is_low_def word_le_nat_alt)
  show ?thesis
    using surrogate_no_key [OF hi] surrogate_no_key [OF lo']
    by (simp add: c toBoldUnicode_def toItalicUnicode_def toMonospaceUnicode_def lookup_or_outside)
qed


lemma same_or_plain_refl [simp]: "same_or_plain a a"
  by (simp add: same_or_plain_def)

lemma list_all2_same_or_plain_refl [simp]: "list_all2 same_or_plain s s"
  by (simp add: list_all2_refl)

lemma quote_replace_same_or_plain:
  assumes "same_or_plain q l" and "same_or_plain q r"
  shows "list_all2 same_or_plain s (replace_g (delimited q) (\<lambda>match g. [l] @ g @ [r]) s)"
proof -
  define Q where "Q = replace_g (delimited q) (\<lambda>match g. [l] @ g @ [r])"
  have "list_all2 same_or_plain s (Q s)"
  proof (induction "length s" arbitrary: s rule: less_induct)
    case less
    show ?case
    proof (cases s)
      case Nil
      then show ?thesis by (simp add: Q_def)
    next
      case (Cons x xs)
      define run where "run = takeWhile (\<lambda>y. y \<noteq> q) xs"
      define rest where "rest = dropWhile (\<lambda>y. y \<noteq> q) xs"
      have xs: "xs = run @ rest" by (simp add: run_def rest_def)
      have step: "Q (x # xs) =
          (if x = q \<and> run \<noteq> [] \<and> rest \<noteq> [] then l # run @ r # Q (tl rest) else x # Q xs)"
        unfolding Q_def run_def rest_def by (subst replace_g_delimited_Cons) simp
      show ?thesis
      proof (cases "x = q \<and> run \<noteq> [] \<and> rest \<noteq> []")
        case True
        then obtain t where t: "rest = q # t"
          using hd_dropWhile [of "\<lambda>y. y \<noteq> q" xs] by (cases rest) (auto simp: rest_def)
        have "length t < length s" using Cons xs t by simp
        then have "list_all2 same_or_plain t (Q t)" by (rule less)
        then have "list_all2 same_or_plain (q # run @ q # t) (l # run @ r # Q t)"
          using assms by (simp add: list_all2_appendI)
        moreover have "Q (x # xs) = l # run @ r # Q t" using True t step by simp
        moreover have "x # xs = q # run @ q # t" using True xs t by simp
        ultimately show ?thesis using Cons by simp
      next
        case False
        have "list_all2 same_or_plain xs (Q xs)" using less [of xs] Cons by simp
        moreover have "Q (x # xs) = x # Q xs" using False step by auto
        ultimately show ?thesis using Cons by simp
      qed
    qed
  qed
  then show ?thesis by (simp only: Q_def)
qed


lemma styled_glyphs_Nil [simp]: "styled_glyphs [] = []"
  by (simp add: styled_glyphs_def)

lemma styled_glyphs_single [simp]: "styled_glyphs [u] = []"
  by (simp add: styled_glyphs_def)

lemma styled_glyphs_pair:
  "is_high u \<and> is_low v \<Longrightarrow>
     styled_glyphs (u # v # t) = (if styled [u, v] then [[u, v]] else []) @ styled_glyphs t"
  by (simp add: styled_glyphs_def)

lemma styled_glyphs_lone:
  "\<not> (is_high u \<and> is_low v) \<Longrightarrow> styled_glyphs (u # v # t) = styled_glyphs (v # t)"
  by (auto simp: styled_glyphs_def)

lemma styled_glyphs_same_or_plain:
  "list_all2 same_or_plain s s' \<Longrightarrow> styled_glyphs s' = styled_glyphs s"
proof (induction s arbitrary: s' rule: code_points.induct)
  case 1
  then show ?case by simp
next
  case (2 u)
  then obtain u' where "s' = [u']" by (cases s') auto
  then show ?case by simp
next
  case (3 u v t)
  from "3.prems" obtain u' r' where r': "s' = u' # r'" "same_or_plain u u'"
      "list_all2 same_or_plain (v # t) r'"
    by (cases s') auto
  from r'(3) obtain v' t' where t': "r' = v' # t'" "same_or_plain v v'"
      "list_all2 same_or_plain t t'"
    by (cases r') auto
  show ?case
  proof (cases "is_high u \<and> is_low v")
    case True
    have "u' = u" using True r'(2) by (auto simp: same_or_plain_def)
    moreover have "v' = v" using True t'(2) by (auto simp: same_or_plain_def)
    moreover have "styled_glyphs t' = styled_glyphs t" using "3.IH"(1) True t'(3) by blast
    ultimately show ?thesis using True r'(1) t'(1) by (simp only: styled_glyphs_pair)
  next
    case False
    have "\<not> (is_high u' \<and> is_low v')"
      using False r'(2) t'(2) by (auto simp: same_or_plain_def)
    moreover have "styled_glyphs (v' # t') = styled_glyphs (v # t)"
      using "3.IH"(2) [OF False] r'(3) t'(1) by blast
    ultimately show ?thesis using False r'(1) t'(1) by (simp add: styled_glyphs_lone)
  qed
qed

lemma quotes_plain [simp]:
  "same_or_plain 0x22 ldquo" "same_or_plain 0x22 rdquo"
  "same_or_plain 0x27 lsquo" "same_or_plain 0x27 rsquo"
  by (simp_all add: same_or_plain_def is_high_def is_low_def ldquo_def rdquo_def lsquo_def rsquo_def)

lemma styled_glyphs_convertQuotes: "styled_glyphs (convertQuotes s) = styled_glyphs s"
proof -
  let ?s1 = "replace_g (delimited 0x22) (\<lambda>match g. [ldquo] @ g @ [rdquo]) s"
  have "styled_glyphs (convertQuotes s) = styled_glyphs ?s1"
    unfolding convertQuotes_def Let_def
    by (rule styled_glyphs_same_or_plain) (rule quote_replace_same_or_plain, simp_all)
  also have "\<dots> = styled_glyphs s"
    by (rule styled_glyphs_same_or_plain) (rule quote_replace_same_or_plain, simp_all)
  finally show ?thesis .
qed

lemma filter_styled_spaced: "filter styled (spaced k E ys) = filter styled ys"
proof (induction k E ys rule: spaced.induct)
  case (1 k E)
  show ?case by simp
next
  case (2 k E x xs)
  have z: "filter styled (replicate k [0x200B]) = []" by (induction k) simp_all
  show ?case
  proof (cases "\<not> Emoji_Presentation E (cp x) \<and> Emoji E (cp x) \<and> take 1 xs = [[0xFE0F]]")
    case True
    then have xs: "xs = [0xFE0F] # tl xs" by (simp add: take1_eq)
    have "filter styled (spaced k E (tl xs)) = filter styled (tl xs)" using 2 True by simp
    moreover have "filter styled xs = filter styled (tl xs)" by (subst xs) simp
    ultimately show ?thesis using True z by simp
  next
    case False
    then show ?thesis using 2 z by auto
  qed
qed

lemma styled_glyphs_improveEmojiSpacing:
  "styled_glyphs (improveEmojiSpacing E s) = styled_glyphs s"
  by (simp add: styled_glyphs_def code_points_improveEmojiSpacing filter_styled_spaced)


lemma replicate_two: "replicate 2 x = [x, x]"
  by (simp add: numeral_2_eq_2)

lemma styled_no_delimiter:
  assumes "styled c"
  shows "set c \<inter> {0x2A, 0x5F, 0x7E, 0x60, 0x22, 0x27} = {}"
proof -
  obtain lo where c: "c = [0xD835, lo]" and lo: "is_low lo" using assms styled_pair by blast
  have "\<not> lo < 0x80" using lo by (simp add: is_low_def word_le_nat_alt word_less_nat_alt)
  then have "lo \<notin> {0x2A, 0x5F, 0x7E, 0x60, 0x22, 0x27}" by auto
  then show ?thesis by (simp add: c)
qed


section \<open>Delimiters through the later passes\<close>

lemma count_replace_g_delimited:
  assumes "c \<noteq> d" and f: "\<And>m g. count_list (f m g) c = count_list g c"
  shows "count_list (replace_g (delimited d) f s) c = count_list s c"
proof (induction "length s" arbitrary: s rule: less_induct)
  case less
  show ?case
  proof (cases s)
    case Nil
    then show ?thesis by simp
  next
    case (Cons x xs)
    define run where "run = takeWhile (\<lambda>y. y \<noteq> d) xs"
    define rest where "rest = dropWhile (\<lambda>y. y \<noteq> d) xs"
    have xs: "xs = run @ rest" by (simp add: run_def rest_def)
    have step: "replace_g (delimited d) f (x # xs) =
        (if x = d \<and> run \<noteq> [] \<and> rest \<noteq> []
         then f (d # run @ [d]) run @ replace_g (delimited d) f (tl rest)
         else x # replace_g (delimited d) f xs)"
      unfolding run_def rest_def by (rule replace_g_delimited_Cons)
    show ?thesis
    proof (cases "x = d \<and> run \<noteq> [] \<and> rest \<noteq> []")
      case True
      then obtain t where t: "rest = d # t"
        using hd_dropWhile [of "\<lambda>y. y \<noteq> d" xs] by (cases rest) (auto simp: rest_def)
      have "length t < length s" using Cons xs t by simp
      then have "count_list (replace_g (delimited d) f t) c = count_list t c" by (rule less)
      moreover have "replace_g (delimited d) f (x # xs)
          = f (d # run @ [d]) run @ replace_g (delimited d) f t"
        using True t step by simp
      moreover have "x # xs = d # run @ d # t" using True xs t by simp
      ultimately show ?thesis using Cons assms(1) f by simp
    next
      case False
      have "count_list (replace_g (delimited d) f xs) c = count_list xs c"
        using less [of xs] Cons by simp
      moreover have "replace_g (delimited d) f (x # xs) = x # replace_g (delimited d) f xs"
        using False step by auto
      ultimately show ?thesis using Cons by simp
    qed
  qed
qed

lemma count_replace_g_fenced:
  assumes "c \<noteq> d" and f: "\<And>m g. count_list (f m g) c = count_list g c"
  shows "count_list (replace_g (fenced d) f s) c = count_list s c"
proof (induction "length s" arbitrary: s rule: less_induct)
  case less
  show ?case
  proof (cases s)
    case Nil
    then show ?thesis by simp
  next
    case (Cons x xs)
    define run where "run = takeWhile (\<lambda>y. y \<noteq> d) (drop 2 xs)"
    define rest where "rest = dropWhile (\<lambda>y. y \<noteq> d) (drop 2 xs)"
    define t where "t = drop 3 rest"
    have step: "replace_g (fenced d) f (x # xs) =
        (if take 3 (x # xs) = [d, d, d] \<and> run \<noteq> [] \<and> take 3 rest = [d, d, d]
         then f ([d, d, d] @ run @ [d, d, d]) run @ replace_g (fenced d) f t
         else x # replace_g (fenced d) f xs)"
      unfolding run_def rest_def t_def by (rule replace_g_fenced_Cons)
    show ?thesis
    proof (cases "take 3 (x # xs) = [d, d, d] \<and> run \<noteq> [] \<and> take 3 rest = [d, d, d]")
      case True
      have d3: "drop 3 (x # xs) = drop 2 xs" by (simp add: numeral_3_eq_3 numeral_2_eq_2)
      have "x # xs = take 3 (x # xs) @ drop 3 (x # xs)" by simp
      also have "drop 3 (x # xs) = run @ rest" by (simp add: d3 run_def rest_def)
      also have "rest = take 3 rest @ t" by (simp add: t_def)
      finally have s: "x # xs = [d, d, d] @ run @ [d, d, d] @ t" using True by simp
      then have "length t < length s" using Cons by (simp add: arg_cong [OF s, of length])
      then have "count_list (replace_g (fenced d) f t) c = count_list t c" by (rule less)
      moreover have "replace_g (fenced d) f (x # xs)
          = f ([d, d, d] @ run @ [d, d, d]) run @ replace_g (fenced d) f t"
        using True step by simp
      moreover have "count_list (x # xs) c = count_list run c + count_list t c"
        using assms(1) by (simp only: s) simp
      ultimately show ?thesis using Cons f by simp
    next
      case False
      have "count_list (replace_g (fenced d) f xs) c = count_list xs c"
        using less [of xs] Cons by simp
      moreover have "replace_g (fenced d) f (x # xs) = x # replace_g (fenced d) f xs"
        using False step by auto
      ultimately show ?thesis using Cons by simp
    qed
  qed
qed

lemma count_lookup_or:
  assumes c: "c < 0x80" and nk: "c \<notin> fst ` set T"
    and T: "set T \<subseteq> set (boldMap @ italicMap @ monospaceMap)"
  shows "count_list (lookup_or T x) c = count_list [x] c"
proof (cases "map_of T x")
  case None
  then show ?thesis by (simp add: lookup_or_def)
next
  case (Some v)
  then have xv: "(x, v) \<in> set T" by (rule map_of_SomeD)
  then have "x \<in> fst ` set T" by force
  then have xc: "x \<noteq> c" using nk by auto
  have "v \<in> set (map snd (boldMap @ italicMap @ monospaceMap))" using xv T by force
  then obtain lo where v: "v = [0xD835, lo]" and lo: "is_low lo" using table_values by blast
  have "\<not> lo < 0x80" using lo by (simp add: is_low_def word_le_nat_alt word_less_nat_alt)
  then have "lo \<noteq> c" using c by auto
  moreover have "c \<noteq> 0xD835" using c by auto
  ultimately show ?thesis using Some v xc by (simp add: lookup_or_def)
qed

lemma count_table:
  assumes "c < 0x80" and "c \<notin> fst ` set T"
    and "set T \<subseteq> set (boldMap @ italicMap @ monospaceMap)"
  shows "count_list (concat (map (lookup_or T) g)) c = count_list g c"
proof (induction g)
  case Nil
  show ?case by simp
next
  case (Cons x g)
  have "count_list (lookup_or T x) c = count_list [x] c" using assms by (rule count_lookup_or)
  then show ?case using Cons by simp
qed

lemma count_strike:
  "c \<noteq> 0x0336 \<Longrightarrow> count_list (toStrikethroughUnicode g) c = count_list g c"
  by (induction g) (simp_all add: toStrikethroughUnicode_def)

lemma count_spaced:
  "c \<noteq> 0x200B \<Longrightarrow> count_list (concat (spaced k E ys)) c = count_list (concat ys) c"
proof (induction k E ys rule: spaced.induct)
  case (1 k E)
  show ?case by simp
next
  case (2 k E x xs)
  have z: "count_list (replicate k 0x200B) c = 0" using "2.prems" by (induction k) simp_all
  show ?case
  proof (cases "\<not> Emoji_Presentation E (cp x) \<and> Emoji E (cp x) \<and> take 1 xs = [[0xFE0F]]")
    case True
    then have xs: "xs = [0xFE0F] # tl xs" by (simp add: take1_eq)
    have "count_list (concat (spaced k E (tl xs))) c = count_list (concat (tl xs)) c"
      using 2 True by simp
    moreover have "count_list (concat xs) c = count_list [0xFE0F] c + count_list (concat (tl xs)) c"
      by (subst xs) simp
    ultimately show ?thesis using True z by auto
  next
    case False
    then show ?thesis using 2 z by auto
  qed
qed

lemma delimiter_no_key:
  "(0x2A::16 word) \<notin> fst ` set italicMap" "(0x2A::16 word) \<notin> fst ` set monospaceMap"
  "(0x5F::16 word) \<notin> fst ` set monospaceMap" "(0x7E::16 word) \<notin> fst ` set monospaceMap"
  by (simp_all add: italicMap_def monospaceMap_def)

lemma count_convertItalic:
  "c < 0x80 \<Longrightarrow> c \<notin> fst ` set italicMap \<Longrightarrow> c \<noteq> 0x5F \<Longrightarrow>
     count_list (convertItalic s) c = count_list s c"
  unfolding convertItalic_def toItalicUnicode_def
  by (rule count_replace_g_delimited) (auto intro: count_table)

lemma count_convertStrikethrough:
  "c \<noteq> 0x0336 \<Longrightarrow> c \<noteq> 0x7E \<Longrightarrow> count_list (convertStrikethrough s) c = count_list s c"
  unfolding convertStrikethrough_def
  by (rule count_replace_g_delimited) (auto intro: count_strike)

lemma count_convertMonospace:
  "c < 0x80 \<Longrightarrow> c \<notin> fst ` set monospaceMap \<Longrightarrow> c \<noteq> 0x60 \<Longrightarrow>
     count_list (convertMonospace s) c = count_list s c"
  unfolding convertMonospace_def toMonospaceUnicode_def
  by (rule count_replace_g_fenced) (auto intro: count_table)

lemma count_convertQuotes:
  assumes "c \<notin> {0x22, 0x27, ldquo, rdquo, lsquo, rsquo}"
  shows "count_list (convertQuotes s) c = count_list s c"
proof -
  have "count_list (replace_g (delimited 0x27) (\<lambda>match g. [lsquo] @ g @ [rsquo]) t) c = count_list t c" for t
    using assms by (intro count_replace_g_delimited) auto
  moreover have "count_list (replace_g (delimited 0x22) (\<lambda>match g. [ldquo] @ g @ [rdquo]) s) c = count_list s c"
    using assms by (intro count_replace_g_delimited) auto
  ultimately show ?thesis by (simp add: convertQuotes_def Let_def)
qed

lemma count_improveEmojiSpacing:
  "c \<noteq> 0x200B \<Longrightarrow> count_list (improveEmojiSpacing E s) c = count_list s c"
  by (simp add: improveEmojiSpacing_spaced count_spaced concat_code_points)

lemma delimiters_kept:
  "count_list (convertToIOSStyle E text) 0x2A = count_list (convertBold text) 0x2A"
  "count_list (convertToIOSStyle E text) 0x5F = count_list (convertItalic (convertBold text)) 0x5F"
  "count_list (convertToIOSStyle E text) 0x7E
     = count_list (convertStrikethrough (convertItalic (convertBold text))) 0x7E"
  "count_list (convertToIOSStyle E text) 0x60
     = count_list (convertMonospace (convertStrikethrough (convertItalic (convertBold text)))) 0x60"
  by (simp_all add: convertToIOSStyle_def Let_def count_improveEmojiSpacing count_convertQuotes
        count_convertMonospace count_convertStrikethrough count_convertItalic delimiter_no_key
        ldquo_def rdquo_def lsquo_def rsquo_def)


lemma replace_g_delimited_at_most_one:
  assumes "e \<notin> set pre" and "e \<notin> set rest"
  shows "replace_g (delimited e) f (pre @ d # rest) = pre @ d # rest"
proof (cases "d = e")
  case True
  then show ?thesis using assms replace_g_delimited_lone [of e pre rest f] by simp
next
  case False
  then have "e \<notin> set (pre @ d # rest)" using assms by auto
  then show ?thesis by (rule replace_g_delimited_id)
qed

lemma convert_lone_delimiter:
  assumes d: "d = 0x2A \<or> d = 0x5F \<or> d = 0x7E"
    and plain: "set (pre @ rest) \<inter> {0x2A, 0x5F, 0x7E, 0x60, 0x22, 0x27} = {}"
    and free: "emoji_free E (code_points (pre @ d # rest))"
  shows "convertToIOSStyle E (pre @ d # rest) = pre @ d # rest"
proof -
  let ?s = "pre @ d # rest"
  have p: "0x2A \<notin> set pre" "0x5F \<notin> set pre" "0x7E \<notin> set pre" "0x60 \<notin> set pre"
    "0x22 \<notin> set pre" "0x27 \<notin> set pre"
    "0x2A \<notin> set rest" "0x5F \<notin> set rest" "0x7E \<notin> set rest" "0x60 \<notin> set rest"
    "0x22 \<notin> set rest" "0x27 \<notin> set rest"
    using plain by auto
  have "0x60 \<notin> set ?s" using d p by auto
  then have mono: "convertMonospace ?s = ?s"
    unfolding convertMonospace_def by (rule replace_g_fenced_plain)
  have bold: "convertBold ?s = ?s"
    unfolding convertBold_def using p(1) p(7) by (rule replace_g_delimited_at_most_one)
  have italic: "convertItalic ?s = ?s"
    unfolding convertItalic_def using p(2) p(8) by (rule replace_g_delimited_at_most_one)
  have strike: "convertStrikethrough ?s = ?s"
    unfolding convertStrikethrough_def using p(3) p(9) by (rule replace_g_delimited_at_most_one)
  have quotes: "convertQuotes ?s = ?s"
    unfolding convertQuotes_def Let_def
    by (simp only: replace_g_delimited_at_most_one [OF p(5) p(11)]
          replace_g_delimited_at_most_one [OF p(6) p(12)])
  have emoji: "improveEmojiSpacing E ?s = ?s"
    using free by (simp add: improveEmojiSpacing_def replace_g_emoji_id concat_code_points)
  show ?thesis
    by (simp only: convertToIOSStyle_def Let_def bold italic strike mono quotes emoji)
qed

lemma convert_lone_fence:
  assumes plain: "set (pre @ rest) \<inter> {0x2A, 0x5F, 0x7E, 0x60, 0x22, 0x27} = {}"
    and free: "emoji_free E (code_points (pre @ [0x60, 0x60, 0x60] @ rest))"
  shows "convertToIOSStyle E (pre @ [0x60, 0x60, 0x60] @ rest) = pre @ [0x60, 0x60, 0x60] @ rest"
proof -
  let ?s = "pre @ [0x60, 0x60, 0x60] @ rest"
  have p: "0x2A \<notin> set ?s" "0x5F \<notin> set ?s" "0x7E \<notin> set ?s" "0x22 \<notin> set ?s" "0x27 \<notin> set ?s"
    "0x60 \<notin> set pre" "0x60 \<notin> set rest"
    using plain by auto
  have "\<not> has_fence 0x60 rest"
    using p(7) by (induction "0x60::16 word" rest rule: has_fence.induct) auto
  then have mono: "convertMonospace ?s = ?s"
    unfolding convertMonospace_def using p(6) by (intro replace_g_fenced_lone)
  have emoji: "improveEmojiSpacing E ?s = ?s"
    using free by (simp add: improveEmojiSpacing_def replace_g_emoji_id concat_code_points)
  have bold: "convertBold ?s = ?s" unfolding convertBold_def using p(1) by (rule replace_g_delimited_id)
  have italic: "convertItalic ?s = ?s" unfolding convertItalic_def using p(2) by (rule replace_g_delimited_id)
  have strike: "convertStrikethrough ?s = ?s"
    unfolding convertStrikethrough_def using p(3) by (rule replace_g_delimited_id)
  have quotes: "convertQuotes ?s = ?s"
    unfolding convertQuotes_def Let_def
    by (simp only: replace_g_delimited_id [OF p(4)] replace_g_delimited_id [OF p(5)])
  show ?thesis
    by (simp only: convertToIOSStyle_def Let_def bold italic strike mono quotes emoji)
qed


lemma spaced_zero: "spaced 0 E ys = ys"
proof (induction "0::nat" E ys rule: spaced.induct)
  case (1 E)
  show ?case by simp
next
  case (2 E x xs)
  show ?case
  proof (cases "\<not> Emoji_Presentation E (cp x) \<and> Emoji E (cp x) \<and> take 1 xs = [[0xFE0F]]")
    case True
    then have xs: "xs = [0xFE0F] # tl xs" by (simp add: take1_eq)
    have "spaced 0 E (tl xs) = tl xs" using 2 True by simp
    then have "spaced 0 E (x # xs) = x # [0xFE0F] # tl xs" using True by simp
    then show ?thesis using xs by simp
  next
    case False
    then show ?thesis using 2 by auto
  qed
qed

lemma spaced_one_grows:
  assumes "\<not> emoji_free E ys"
  shows "concat (spaced 1 E ys) \<noteq> concat ys"
proof
  assume "concat (spaced 1 E ys) = concat ys"
  then have "length (concat (spaced 1 E ys)) = length (concat ys)" by (rule arg_cong)
  then show False using length_spaced [of 0 E ys 1] assms by (simp add: spaced_zero)
qed

section \<open>The pipeline\<close>

text \<open>
  Claim C1. \<open>convertToIOSStyle\<close> is the composition of six passes in a fixed order:
  bold, italic, strikethrough, monospace, quotes, emoji spacing, each pass reading
  the output of the one before it.
\<close>

theorem C1_pipeline_order:
  "convertToIOSStyle E text =
     (improveEmojiSpacing E \<circ> convertQuotes \<circ> convertMonospace \<circ> convertStrikethrough
        \<circ> convertItalic \<circ> convertBold) text"
  by (simp add: convertToIOSStyle_def Let_def)

section \<open>Spans\<close>

text \<open>
  Claim C2. Every style pass scans from left to right. Where it stands on an opening
  delimiter, the interior of the span is the text up to the nearest following
  delimiter character (\<open>takeWhile\<close> up to it), the span is rewritten when that
  interior is not empty and the closing delimiter follows it, and scanning goes on
  right after the closing delimiter; otherwise the character is copied and scanning
  goes on one character further. So \<open>*a*b*c*\<close> has the two bold spans \<open>a\<close> and \<open>c\<close>
  with a plain \<open>b\<close> between them.
\<close>

theorem C2_nearest_closing_delimiter:
  "convertBold [] = []
   \<and> convertBold (x # xs) =
       (let run = takeWhile (\<lambda>y. y \<noteq> 0x2A) xs; rest = dropWhile (\<lambda>y. y \<noteq> 0x2A) xs
        in if x = 0x2A \<and> run \<noteq> [] \<and> rest \<noteq> []
           then toBoldUnicode run @ convertBold (tl rest) else x # convertBold xs)
   \<and> convertItalic [] = []
   \<and> convertItalic (x # xs) =
       (let run = takeWhile (\<lambda>y. y \<noteq> 0x5F) xs; rest = dropWhile (\<lambda>y. y \<noteq> 0x5F) xs
        in if x = 0x5F \<and> run \<noteq> [] \<and> rest \<noteq> []
           then toItalicUnicode run @ convertItalic (tl rest) else x # convertItalic xs)
   \<and> convertStrikethrough [] = []
   \<and> convertStrikethrough (x # xs) =
       (let run = takeWhile (\<lambda>y. y \<noteq> 0x7E) xs; rest = dropWhile (\<lambda>y. y \<noteq> 0x7E) xs
        in if x = 0x7E \<and> run \<noteq> [] \<and> rest \<noteq> []
           then toStrikethroughUnicode run @ convertStrikethrough (tl rest)
           else x # convertStrikethrough xs)
   \<and> convertMonospace [] = []
   \<and> convertMonospace (x # xs) =
       (let run = takeWhile (\<lambda>y. y \<noteq> 0x60) (drop 2 xs);
            rest = dropWhile (\<lambda>y. y \<noteq> 0x60) (drop 2 xs)
        in if take 3 (x # xs) = [0x60, 0x60, 0x60] \<and> run \<noteq> [] \<and> take 3 rest = [0x60, 0x60, 0x60]
           then toMonospaceUnicode run @ convertMonospace (drop 3 rest)
           else x # convertMonospace xs)
   \<and> convertBold (js ''*a*b*c*'') = toBoldUnicode (js ''a'') @ js ''b'' @ toBoldUnicode (js ''c'')
   \<and> convertToIOSStyle unicode15 (js ''*a*b*c*'') = [0xD835, 0xDDEE, 0x62, 0xD835, 0xDDF0]"
proof -
  have bold: "convertBold (js ''*a*b*c*'') = toBoldUnicode (js ''a'') @ js ''b'' @ toBoldUnicode (js ''c'')"
    by (simp add: convertBold_def js_def replace_g_delimited_Cons)
  have all: "convertToIOSStyle unicode15 (js ''*a*b*c*'') = [0xD835, 0xDDEE, 0x62, 0xD835, 0xDDF0]"
    by (simp add: pass_eval boldMap_def unicode15_eval)
  show ?thesis
    unfolding convertBold_def convertItalic_def convertStrikethrough_def convertMonospace_def Let_def
    using bold all
    by (simp only: replace_g_delimited_Nil replace_g_fenced_Nil
          replace_g_delimited_Cons [of _ _ x xs] replace_g_fenced_Cons [of _ _ x xs]
          convertBold_def simp_thms)
qed

text \<open>
  Claim C3, as stated, fails: the patterns ask for at least one character between the
  delimiters (\<open>[^*]+\<close>), so \<open>**\<close> is no span and comes out as it went in.
\<close>

theorem C3_empty_interior_counterexample:
  "convertBold [0x2A, 0x2A] = [0x2A, 0x2A]
   \<and> convertToIOSStyle unicode15 [0x2A, 0x2A] = [0x2A, 0x2A]
   \<and> convertToIOSStyle unicode15 [0x2A, 0x2A] \<noteq> []"
  by (simp add: pass_eval unicode15_eval)

text \<open>
  Claim C3, amended. An opening delimiter with the closing delimiter right after it
  is not rewritten by any style pass: the first delimiter is copied and scanning goes
  on from the second one. The texts \<open>**\<close>, \<open>__\<close>, \<open>~~\<close> and six backticks come out
  unchanged.
\<close>

theorem C3_empty_interior_is_no_span:
  "convertBold (0x2A # 0x2A # t) = 0x2A # convertBold (0x2A # t)
   \<and> convertItalic (0x5F # 0x5F # t) = 0x5F # convertItalic (0x5F # t)
   \<and> convertStrikethrough (0x7E # 0x7E # t) = 0x7E # convertStrikethrough (0x7E # t)
   \<and> convertMonospace ([0x60, 0x60, 0x60, 0x60, 0x60, 0x60] @ t)
       = [0x60, 0x60, 0x60] @ convertMonospace ([0x60, 0x60, 0x60] @ t)
   \<and> convertBold [0x2A, 0x2A] = [0x2A, 0x2A]
   \<and> convertItalic [0x5F, 0x5F] = [0x5F, 0x5F]
   \<and> convertStrikethrough [0x7E, 0x7E] = [0x7E, 0x7E]
   \<and> convertMonospace [0x60, 0x60, 0x60, 0x60, 0x60, 0x60] = [0x60, 0x60, 0x60, 0x60, 0x60, 0x60]
   \<and> convertToIOSStyle unicode15 (js ''**'') = js ''**''"
  by (simp add: pass_eval unicode15_eval)

text \<open>
  Claim C4, as stated, fails: the interior of a monospace span is \<open>[^`]+\<close>, which a
  single backtick ends, so the text \<open>```a`b```\<close> has no span and comes out unchanged.
\<close>

theorem C4_lone_backtick_counterexample:
  "convertToIOSStyle unicode15 (js ''```a`b```'') = js ''```a`b```''
   \<and> convertToIOSStyle unicode15 (js ''```a`b```'') \<noteq> toMonospaceUnicode (js ''a`b'')"
  by (simp add: pass_eval unicode15_eval monospaceMap_def)

text \<open>
  Claim C4, amended. The monospace pass rewrites a triple backtick, a non-empty
  interior without any backtick and a triple backtick. Where the first backtick after
  the interior does not begin a triple backtick, no span begins at the opening
  marker: its first backtick is copied and scanning goes on from the next character.
\<close>

theorem C4_interior_without_backtick:
  "(g \<noteq> [] \<longrightarrow> 0x60 \<notin> set g \<longrightarrow>
      convertMonospace ([0x60, 0x60, 0x60] @ g @ [0x60, 0x60, 0x60] @ t)
        = toMonospaceUnicode g @ convertMonospace t)
   \<and> (0x60 \<notin> set g \<longrightarrow> take 2 h \<noteq> [0x60, 0x60] \<longrightarrow>
      convertMonospace ([0x60, 0x60, 0x60] @ g @ 0x60 # h)
        = 0x60 # convertMonospace ([0x60, 0x60] @ g @ 0x60 # h))
   \<and> convertMonospace (js ''```a`b```'') = js ''```a`b```''"
proof (intro conjI impI)
  assume g: "g \<noteq> []" "0x60 \<notin> set g"
  show "convertMonospace ([0x60, 0x60, 0x60] @ g @ [0x60, 0x60, 0x60] @ t)
          = toMonospaceUnicode g @ convertMonospace t"
    using g by (simp add: convertMonospace_def replace_g_fenced_Cons run_upto rest_from)
next
  assume g: "0x60 \<notin> set g" and h: "take 2 h \<noteq> [0x60, 0x60]"
  have "take 3 (0x60 # h) \<noteq> [0x60, 0x60, 0x60]"
    using h by (simp add: numeral_3_eq_3 numeral_2_eq_2)
  then show "convertMonospace ([0x60, 0x60, 0x60] @ g @ 0x60 # h)
          = 0x60 # convertMonospace ([0x60, 0x60] @ g @ 0x60 # h)"
    using g by (simp add: convertMonospace_def replace_g_fenced_Cons run_upto rest_from)
next
  show "convertMonospace (js ''```a`b```'') = js ''```a`b```''"
    by (simp add: pass_eval)
qed

theorem C4_interior_without_backtick_witness:
  "js ''ab'' \<noteq> [] \<and> 0x60 \<notin> set (js ''ab'')
   \<and> convertMonospace (js ''```ab```!'') = [0xD835, 0xDE8A, 0xD835, 0xDE8B, 0x21]
   \<and> 0x60 \<notin> set (js ''a'') \<and> take 2 (js ''b```'') \<noteq> [0x60, 0x60]
   \<and> convertMonospace (js ''```a`b```'') = 0x60 # convertMonospace (js ''``a`b```'')"
  using C4_interior_without_backtick [where g = "js ''ab''" and t = "js ''!''"]
    C4_interior_without_backtick [where g = "js ''a''" and h = "js ''b```''"]
  by (simp add: js_def toMonospaceUnicode_def lookup_or_def monospaceMap_def
        convertMonospace_def replace_g_fenced_Cons)

text \<open>
  Claim C5, as stated for the pipeline, fails: in \<open>*a _b_\<close> the asterisk has no
  closing asterisk after it, and the pipeline keeps the asterisk but not the text
  after it, where the italic pass finds the span \<open>_b_\<close>.
\<close>

theorem C5_pipeline_counterexample:
  "0x2A \<notin> set (js ''a _b_'')
   \<and> convertToIOSStyle unicode15 (js ''*a _b_'') = [0x2A, 0x61, 0x20, 0xD835, 0xDE23]
   \<and> convertToIOSStyle unicode15 (js ''*a _b_'') \<noteq> js ''*a _b_''"
  by (simp add: pass_eval unicode15_eval italicMap_def)

text \<open>
  Claim C5, amended. Where a style pass stands on an opening delimiter that has no
  closing delimiter after it (for the monospace pass: no triple backtick), that pass
  copies the delimiter and all the text after it as they are. This holds at the start
  of a text and wherever the search of the pass comes to stand in a text
  (\<open>reaches\<close>): the output of the pass then ends with the delimiter and the text
  after it. No later pass removes or adds a delimiter character of that style: the
  output of the pipeline holds as many of them as the output of the style's own pass.
  The later passes may rewrite the text after the delimiter; where the text around
  the delimiter has no delimiter character, no straight quote and no emoji, the
  pipeline returns the whole text unchanged, as it does for \<open>*no close\<close>.
\<close>

theorem C5_unmatched_delimiter_verbatim:
  "(0x2A \<notin> set rest \<longrightarrow> convertBold (0x2A # rest) = 0x2A # rest)
   \<and> (reaches (delimited 0x2A) text (0x2A # rest) \<longrightarrow> 0x2A \<notin> set rest \<longrightarrow>
        (\<exists>w. convertBold text = w @ 0x2A # rest))
   \<and> (0x5F \<notin> set rest \<longrightarrow> convertItalic (0x5F # rest) = 0x5F # rest)
   \<and> (reaches (delimited 0x5F) text (0x5F # rest) \<longrightarrow> 0x5F \<notin> set rest \<longrightarrow>
        (\<exists>w. convertItalic text = w @ 0x5F # rest))
   \<and> (0x7E \<notin> set rest \<longrightarrow> convertStrikethrough (0x7E # rest) = 0x7E # rest)
   \<and> (reaches (delimited 0x7E) text (0x7E # rest) \<longrightarrow> 0x7E \<notin> set rest \<longrightarrow>
        (\<exists>w. convertStrikethrough text = w @ 0x7E # rest))
   \<and> (\<not> has_fence 0x60 rest \<longrightarrow>
        convertMonospace ([0x60, 0x60, 0x60] @ rest) = [0x60, 0x60, 0x60] @ rest)
   \<and> (reaches (fenced 0x60) text ([0x60, 0x60, 0x60] @ rest) \<longrightarrow> \<not> has_fence 0x60 rest \<longrightarrow>
        (\<exists>w. convertMonospace text = w @ [0x60, 0x60, 0x60] @ rest))
   \<and> count_list (convertToIOSStyle E text) 0x2A = count_list (convertBold text) 0x2A
   \<and> count_list (convertToIOSStyle E text) 0x5F = count_list (convertItalic (convertBold text)) 0x5F
   \<and> count_list (convertToIOSStyle E text) 0x7E
       = count_list (convertStrikethrough (convertItalic (convertBold text))) 0x7E
   \<and> count_list (convertToIOSStyle E text) 0x60
       = count_list (convertMonospace (convertStrikethrough (convertItalic (convertBold text)))) 0x60
   \<and> (set (pre @ rest) \<inter> {0x2A, 0x5F, 0x7E, 0x60, 0x22, 0x27} = {} \<longrightarrow>
        (emoji_free E (code_points (pre @ 0x2A # rest)) \<longrightarrow>
           convertToIOSStyle E (pre @ 0x2A # rest) = pre @ 0x2A # rest)
        \<and> (emoji_free E (code_points (pre @ 0x5F # rest)) \<longrightarrow>
           convertToIOSStyle E (pre @ 0x5F # rest) = pre @ 0x5F # rest)
        \<and> (emoji_free E (code_points (pre @ 0x7E # rest)) \<longrightarrow>
           convertToIOSStyle E (pre @ 0x7E # rest) = pre @ 0x7E # rest)
        \<and> (emoji_free E (code_points (pre @ [0x60, 0x60, 0x60] @ rest)) \<longrightarrow>
           convertToIOSStyle E (pre @ [0x60, 0x60, 0x60] @ rest) = pre @ [0x60, 0x60, 0x60] @ rest))
   \<and> convertToIOSStyle unicode15 (js ''*no close'') = js ''*no close''"
proof -
  have example: "convertToIOSStyle unicode15 (js ''*no close'') = js ''*no close''"
    by (simp add: pass_eval unicode15_eval)
  have per_pass: "(0x2A \<notin> set rest \<longrightarrow> convertBold (0x2A # rest) = 0x2A # rest)
   \<and> (reaches (delimited 0x2A) text (0x2A # rest) \<longrightarrow> 0x2A \<notin> set rest \<longrightarrow>
        (\<exists>w. convertBold text = w @ 0x2A # rest))
   \<and> (0x5F \<notin> set rest \<longrightarrow> convertItalic (0x5F # rest) = 0x5F # rest)
   \<and> (reaches (delimited 0x5F) text (0x5F # rest) \<longrightarrow> 0x5F \<notin> set rest \<longrightarrow>
        (\<exists>w. convertItalic text = w @ 0x5F # rest))
   \<and> (0x7E \<notin> set rest \<longrightarrow> convertStrikethrough (0x7E # rest) = 0x7E # rest)
   \<and> (reaches (delimited 0x7E) text (0x7E # rest) \<longrightarrow> 0x7E \<notin> set rest \<longrightarrow>
        (\<exists>w. convertStrikethrough text = w @ 0x7E # rest))
   \<and> (\<not> has_fence 0x60 rest \<longrightarrow>
        convertMonospace ([0x60, 0x60, 0x60] @ rest) = [0x60, 0x60, 0x60] @ rest)
   \<and> (reaches (fenced 0x60) text ([0x60, 0x60, 0x60] @ rest) \<longrightarrow> \<not> has_fence 0x60 rest \<longrightarrow>
        (\<exists>w. convertMonospace text = w @ [0x60, 0x60, 0x60] @ rest))"
    unfolding convertBold_def convertItalic_def convertStrikethrough_def convertMonospace_def
    by (intro conjI impI replace_g_delimited_open replace_g_fenced_open
          reaches_delimited_open reaches_fenced_open)
  have lone: "convertToIOSStyle E (pre @ d # rest) = pre @ d # rest"
    if "set (pre @ rest) \<inter> {0x2A, 0x5F, 0x7E, 0x60, 0x22, 0x27} = {}"
      "emoji_free E (code_points (pre @ d # rest))" "d = 0x2A \<or> d = 0x5F \<or> d = 0x7E" for d
    using that(3) that(1) that(2) by (rule convert_lone_delimiter)
  have whole: "set (pre @ rest) \<inter> {0x2A, 0x5F, 0x7E, 0x60, 0x22, 0x27} = {} \<longrightarrow>
        (emoji_free E (code_points (pre @ 0x2A # rest)) \<longrightarrow>
           convertToIOSStyle E (pre @ 0x2A # rest) = pre @ 0x2A # rest)
        \<and> (emoji_free E (code_points (pre @ 0x5F # rest)) \<longrightarrow>
           convertToIOSStyle E (pre @ 0x5F # rest) = pre @ 0x5F # rest)
        \<and> (emoji_free E (code_points (pre @ 0x7E # rest)) \<longrightarrow>
           convertToIOSStyle E (pre @ 0x7E # rest) = pre @ 0x7E # rest)
        \<and> (emoji_free E (code_points (pre @ [0x60, 0x60, 0x60] @ rest)) \<longrightarrow>
           convertToIOSStyle E (pre @ [0x60, 0x60, 0x60] @ rest) = pre @ [0x60, 0x60, 0x60] @ rest)"
    using lone convert_lone_fence [of pre rest E] by blast
  show ?thesis
    using per_pass example whole delimiters_kept [of E "text"] by (intro conjI) blast+
qed

theorem C5_unmatched_delimiter_verbatim_witness:
  "0x2A \<notin> set (js ''no close'') \<and> convertBold (0x2A # js ''no close'') = 0x2A # js ''no close''
   \<and> reaches (delimited 0x2A) (js ''*a* *no close'') (0x2A # js ''no close'')
   \<and> convertBold (js ''*a* *no close'') = [0xD835, 0xDDEE, 0x20] @ 0x2A # js ''no close''
   \<and> 0x5F \<notin> set (js ''no close'') \<and> convertItalic (0x5F # js ''no close'') = 0x5F # js ''no close''
   \<and> reaches (delimited 0x5F) (js ''_a_ _no close'') (0x5F # js ''no close'')
   \<and> convertItalic (js ''_a_ _no close'') = [0xD835, 0xDE22, 0x20] @ 0x5F # js ''no close''
   \<and> 0x7E \<notin> set (js ''no close'')
   \<and> convertStrikethrough (0x7E # js ''no close'') = 0x7E # js ''no close''
   \<and> reaches (delimited 0x7E) (js ''~a~ ~no close'') (0x7E # js ''no close'')
   \<and> convertStrikethrough (js ''~a~ ~no close'') = [0x61, 0x0336, 0x20] @ 0x7E # js ''no close''
   \<and> \<not> has_fence 0x60 (js ''no ``close'')
   \<and> convertMonospace ([0x60, 0x60, 0x60] @ js ''no ``close'') = [0x60, 0x60, 0x60] @ js ''no ``close''
   \<and> reaches (fenced 0x60) (js ''```a``` ```no ``close'') ([0x60, 0x60, 0x60] @ js ''no ``close'')
   \<and> convertMonospace (js ''```a``` ```no ``close'')
       = [0xD835, 0xDE8A, 0x20] @ [0x60, 0x60, 0x60] @ js ''no ``close''
   \<and> set (js ''is '' @ js ''no close'') \<inter> {0x2A, 0x5F, 0x7E, 0x60, 0x22, 0x27} = {}
   \<and> emoji_free unicode15 (code_points (js ''is '' @ 0x2A # js ''no close''))
   \<and> convertToIOSStyle unicode15 (js ''is '' @ 0x2A # js ''no close'') = js ''is '' @ 0x2A # js ''no close''
   \<and> emoji_free unicode15 (code_points (js ''is '' @ 0x5F # js ''no close''))
   \<and> convertToIOSStyle unicode15 (js ''is '' @ 0x5F # js ''no close'') = js ''is '' @ 0x5F # js ''no close''
   \<and> emoji_free unicode15 (code_points (js ''is '' @ 0x7E # js ''no close''))
   \<and> convertToIOSStyle unicode15 (js ''is '' @ 0x7E # js ''no close'') = js ''is '' @ 0x7E # js ''no close''
   \<and> emoji_free unicode15 (code_points (js ''is '' @ [0x60, 0x60, 0x60] @ js ''no close''))
   \<and> convertToIOSStyle unicode15 (js ''is '' @ [0x60, 0x60, 0x60] @ js ''no close'')
       = js ''is '' @ [0x60, 0x60, 0x60] @ js ''no close''"
proof -
  have r1: "reaches (delimited 0x2A) (js ''*a* *no close'') (0x2A # js ''no close'')"
    by (simp add: js_def exec_at_delimited)
  have r2: "reaches (delimited 0x5F) (js ''_a_ _no close'') (0x5F # js ''no close'')"
    by (simp add: js_def exec_at_delimited)
  have r3: "reaches (delimited 0x7E) (js ''~a~ ~no close'') (0x7E # js ''no close'')"
    by (simp add: js_def exec_at_delimited)
  have r4: "reaches (fenced 0x60) (js ''```a``` ```no ``close'') ([0x60, 0x60, 0x60] @ js ''no ``close'')"
    by (simp add: js_def exec_at_fenced)
  have n1: "0x2A \<notin> set (js ''no close'')" and n2: "0x5F \<notin> set (js ''no close'')"
    and n3: "0x7E \<notin> set (js ''no close'')" and n4: "\<not> has_fence 0x60 (js ''no ``close'')"
    by (simp_all add: js_def)
  have o1: "convertBold (js ''*a* *no close'') = [0xD835, 0xDDEE, 0x20] @ 0x2A # js ''no close''"
    by (simp add: pass_eval boldMap_def)
  have o2: "convertItalic (js ''_a_ _no close'') = [0xD835, 0xDE22, 0x20] @ 0x5F # js ''no close''"
    by (simp add: pass_eval italicMap_def)
  have o3: "convertStrikethrough (js ''~a~ ~no close'') = [0x61, 0x0336, 0x20] @ 0x7E # js ''no close''"
    by (simp add: pass_eval)
  have o4: "convertMonospace (js ''```a``` ```no ``close'')
       = [0xD835, 0xDE8A, 0x20] @ [0x60, 0x60, 0x60] @ js ''no ``close''"
    by (simp add: pass_eval monospaceMap_def)
  have p: "set (js ''is '' @ js ''no close'') \<inter> {0x2A, 0x5F, 0x7E, 0x60, 0x22, 0x27} = {}"
    by (simp add: js_def)
  have e1: "emoji_free unicode15 (code_points (js ''is '' @ 0x2A # js ''no close''))"
    by (simp add: js_def is_high_def is_low_def unicode15_eval)
  have e2: "emoji_free unicode15 (code_points (js ''is '' @ 0x5F # js ''no close''))"
    by (simp add: js_def is_high_def is_low_def unicode15_eval)
  have e3: "emoji_free unicode15 (code_points (js ''is '' @ 0x7E # js ''no close''))"
    by (simp add: js_def is_high_def is_low_def unicode15_eval)
  have e4: "emoji_free unicode15 (code_points (js ''is '' @ [0x60, 0x60, 0x60] @ js ''no close''))"
    by (simp add: js_def is_high_def is_low_def unicode15_eval)
  note c5 = C5_unmatched_delimiter_verbatim
      [where rest = "js ''no close''" and E = unicode15 and pre = "js ''is ''"]
  note c5m = C5_unmatched_delimiter_verbatim [where rest = "js ''no ``close''"]
  note b = c5 [THEN conjunct1, THEN mp, OF n1]
  note t2 = c5 [THEN conjunct2, THEN conjunct2]
  note i = t2 [THEN conjunct1, THEN mp, OF n2]
  note t4 = t2 [THEN conjunct2, THEN conjunct2]
  note s = t4 [THEN conjunct1, THEN mp, OF n3]
  note m = c5m [THEN conjunct2, THEN conjunct2, THEN conjunct2, THEN conjunct2,
      THEN conjunct2, THEN conjunct2, THEN conjunct1, THEN mp, OF n4]
  note t12 = t4 [THEN conjunct2, THEN conjunct2, THEN conjunct2, THEN conjunct2,
      THEN conjunct2, THEN conjunct2, THEN conjunct2, THEN conjunct2]
  note whole = t12 [THEN conjunct1, THEN mp, OF p]
  note w1 = whole [THEN conjunct1, THEN mp, OF e1]
  note w2 = whole [THEN conjunct2, THEN conjunct1, THEN mp, OF e2]
  note w3 = whole [THEN conjunct2, THEN conjunct2, THEN conjunct1, THEN mp, OF e3]
  note w4 = whole [THEN conjunct2, THEN conjunct2, THEN conjunct2, THEN mp, OF e4]
  show ?thesis
    by (intro conjI n1 n2 n3 n4 r1 r2 r3 r4 o1 o2 o3 o4 b i s m p e1 e2 e3 e4 w1 w2 w3 w4)
qed

section \<open>Transliteration\<close>

text \<open>
  Claim C6. The strikethrough pass puts U+0336 after every UTF-16 code unit of the
  interior, since \<open>split('')\<close> cuts the text into code units. For \<open>~Hi~\<close> that is one
  mark per scalar value. For an interior outside the Basic Multilingual Plane it is
  not: U+1F600 is the surrogate pair D83D DE00, the pass puts a mark after each half,
  and the result holds two lone surrogates where the claim has one scalar value
  and one mark.
\<close>

theorem C6_strikethrough_splits_surrogates:
  "convertToIOSStyle unicode15 (js ''~Hi~'') = [0x48, 0x0336, 0x69, 0x0336]
   \<and> code_points [0x7E, 0xD83D, 0xDE00, 0x7E] = [[0x7E], [0xD83D, 0xDE00], [0x7E]]
   \<and> cp [0xD83D, 0xDE00] = 0x1F600
   \<and> convertStrikethrough [0x7E, 0xD83D, 0xDE00, 0x7E] = [0xD83D, 0x0336, 0xDE00, 0x0336]
   \<and> convertToIOSStyle unicode15 [0x7E, 0xD83D, 0xDE00, 0x7E] = [0xD83D, 0x0336, 0xDE00, 0x0336]
   \<and> code_points (convertToIOSStyle unicode15 [0x7E, 0xD83D, 0xDE00, 0x7E])
         = [[0xD83D], [0x0336], [0xDE00], [0x0336]]"
  by (simp add: pass_eval unicode15_eval)




section \<open>Algebraic properties\<close>

text \<open>
  Claim C8. On a text without the delimiter characters \<open>*\<close>, \<open>_\<close>, \<open>~\<close> and the
  backtick, without straight single or double quotes, and without a code point
  classified as an emoji, the pipeline is the identity. This holds for every table of
  emoji classes.
\<close>

theorem C8_identity_on_plain_text:
  assumes "set text \<inter> {0x2A, 0x5F, 0x7E, 0x60, 0x22, 0x27} = {}"
    and "emoji_free E (code_points text)"
  shows "convertToIOSStyle E text = text"
proof -
  have "0x2A \<notin> set text" "0x5F \<notin> set text" "0x7E \<notin> set text" "0x60 \<notin> set text"
    "0x22 \<notin> set text" "0x27 \<notin> set text"
    using assms(1) by auto
  then show ?thesis
    using assms(2)
    by (simp add: convertToIOSStyle_def convertBold_def convertItalic_def
          convertStrikethrough_def convertMonospace_def convertQuotes_def improveEmojiSpacing_def
          replace_g_delimited_id replace_g_fenced_plain replace_g_emoji_id concat_code_points)
qed

theorem C8_identity_on_plain_text_witness:
  "set (js ''Route 66, ok!'') \<inter> {0x2A, 0x5F, 0x7E, 0x60, 0x22, 0x27} = {}
   \<and> emoji_free unicode15 (code_points (js ''Route 66, ok!''))
   \<and> convertToIOSStyle unicode15 (js ''Route 66, ok!'') = js ''Route 66, ok!''"
proof -
  have h1: "set (js ''Route 66, ok!'') \<inter> {0x2A, 0x5F, 0x7E, 0x60, 0x22, 0x27} = {}"
    by (simp add: js_def)
  have h2: "emoji_free unicode15 (code_points (js ''Route 66, ok!''))"
    by (simp add: js_def is_high_def is_low_def unicode15_eval)
  show ?thesis
    using h1 h2 C8_identity_on_plain_text [OF h1 h2] by blast
qed

text \<open>
  Claim C9. Take a text without the delimiter characters \<open>*\<close>, \<open>_\<close>, \<open>~\<close> and the
  backtick, in particular an output of the pipeline without them. Converting it
  runs no style pass on it: the result is the quote pass followed by the emoji pass.
  These two leave every styled glyph where it is in the sequence of styled glyphs:
  the styled glyphs of the result are those of the text, in the same order. The
  glyphs are surrogate pairs, and no surrogate is a key of a glyph table or a
  delimiter or quote character, so each table maps a styled glyph to itself and no
  pattern has a delimiter in it.
\<close>

theorem C9_styled_glyphs_survive:
  assumes "set out \<inter> {0x2A, 0x5F, 0x7E, 0x60} = {}"
  shows "convertToIOSStyle E out = improveEmojiSpacing E (convertQuotes out)
     \<and> styled_glyphs (convertToIOSStyle E out) = styled_glyphs out
     \<and> (styled c \<longrightarrow>
          toBoldUnicode c = c \<and> toItalicUnicode c = c \<and> toMonospaceUnicode c = c
          \<and> set c \<inter> {0x2A, 0x5F, 0x7E, 0x60, 0x22, 0x27} = {})"
proof -
  have "0x2A \<notin> set out" "0x5F \<notin> set out" "0x7E \<notin> set out" "0x60 \<notin> set out"
    using assms by auto
  then have pipe: "convertToIOSStyle E out = improveEmojiSpacing E (convertQuotes out)"
    by (simp add: convertToIOSStyle_def convertBold_def convertItalic_def
          convertStrikethrough_def convertMonospace_def
          replace_g_delimited_id replace_g_fenced_plain)
  then have "styled_glyphs (convertToIOSStyle E out) = styled_glyphs out"
    by (simp add: styled_glyphs_improveEmojiSpacing styled_glyphs_convertQuotes)
  then show ?thesis using pipe styled_fixed styled_no_delimiter by blast
qed



theorem C9_styled_glyphs_survive_witness:
  "set (convertToIOSStyle unicode15 (js ''*Hi*'')) \<inter> {0x2A, 0x5F, 0x7E, 0x60} = {}
   \<and> convertToIOSStyle unicode15 (js ''*Hi*'') = [0xD835, 0xDDDB, 0xD835, 0xDDF6]
   \<and> styled_glyphs (convertToIOSStyle unicode15 (convertToIOSStyle unicode15 (js ''*Hi*'')))
       = styled_glyphs (convertToIOSStyle unicode15 (js ''*Hi*''))
   \<and> styled_glyphs (convertToIOSStyle unicode15 (js ''*Hi*'')) = [[0xD835, 0xDDDB], [0xD835, 0xDDF6]]
   \<and> styled [0xD835, 0xDDDB]
   \<and> toBoldUnicode [0xD835, 0xDDDB] = [0xD835, 0xDDDB]
   \<and> toItalicUnicode [0xD835, 0xDDDB] = [0xD835, 0xDDDB]
   \<and> toMonospaceUnicode [0xD835, 0xDDDB] = [0xD835, 0xDDDB]
   \<and> set ([0xD835, 0xDDDB] :: jsstring) \<inter> {0x2A, 0x5F, 0x7E, 0x60, 0x22, 0x27} = {}"
proof -
  have out: "convertToIOSStyle unicode15 (js ''*Hi*'') = [0xD835, 0xDDDB, 0xD835, 0xDDF6]"
    by (simp add: pass_eval unicode15_eval boldMap_def)
  have h: "set (convertToIOSStyle unicode15 (js ''*Hi*'')) \<inter> {0x2A, 0x5F, 0x7E, 0x60} = {}"
    by (simp add: out)
  have st: "styled [0xD835, 0xDDDB]"
    by (simp add: styled_def boldMap_def)
  have gl: "styled_glyphs (convertToIOSStyle unicode15 (js ''*Hi*''))
              = [[0xD835, 0xDDDB], [0xD835, 0xDDF6]]"
    unfolding out by (simp add: styled_glyphs_def styled_def boldMap_def is_high_def is_low_def)
  note c9 = C9_styled_glyphs_survive [OF h, of unicode15 "[0xD835, 0xDDDB]"]
  show ?thesis
    using h out st gl c9 by blast
qed


text \<open>
  Claim C10, as stated, fails. The text \<open>**a*\<close>, U+1F600, \<open>**\<close> holds a code point with
  the emoji presentation; its conversion keeps three asterisks, the second conversion
  turns two of them into a bold span, so the two conversions differ by more than a
  zero-width space. And in \<open>~\<close>, U+1F600, \<open>~\<close> the strikethrough pass tears the
  surrogate pair apart, no emoji is left, and the second conversion changes nothing.
\<close>

theorem C10_idempotence_counterexample:
  "list_ex (\<lambda>c. Emoji_Presentation unicode15 (cp c))
      (code_points [0x2A, 0x2A, 0x61, 0x2A, 0xD83D, 0xDE00, 0x2A, 0x2A])
   \<and> convertToIOSStyle unicode15 [0x2A, 0x2A, 0x61, 0x2A, 0xD83D, 0xDE00, 0x2A, 0x2A]
       = [0x2A, 0xD835, 0xDDEE, 0xD83D, 0xDE00, 0x200B, 0x2A, 0x2A]
   \<and> convertToIOSStyle unicode15
         (convertToIOSStyle unicode15 [0x2A, 0x2A, 0x61, 0x2A, 0xD83D, 0xDE00, 0x2A, 0x2A])
       = [0xD835, 0xDDEE, 0xD83D, 0xDE00, 0x200B, 0x200B, 0x2A]
   \<and> convertToIOSStyle unicode15
         (convertToIOSStyle unicode15 [0x2A, 0x2A, 0x61, 0x2A, 0xD83D, 0xDE00, 0x2A, 0x2A])
       \<noteq> improveEmojiSpacing unicode15
           (convertToIOSStyle unicode15 [0x2A, 0x2A, 0x61, 0x2A, 0xD83D, 0xDE00, 0x2A, 0x2A])
   \<and> list_ex (\<lambda>c. Emoji_Presentation unicode15 (cp c)) (code_points [0x7E, 0xD83D, 0xDE00, 0x7E])
   \<and> convertToIOSStyle unicode15 [0x7E, 0xD83D, 0xDE00, 0x7E] = [0xD83D, 0x0336, 0xDE00, 0x0336]
   \<and> convertToIOSStyle unicode15 (convertToIOSStyle unicode15 [0x7E, 0xD83D, 0xDE00, 0x7E])
       = convertToIOSStyle unicode15 [0x7E, 0xD83D, 0xDE00, 0x7E]"
proof -
  have c1: "convertToIOSStyle unicode15 [0x2A, 0x2A, 0x61, 0x2A, 0xD83D, 0xDE00, 0x2A, 0x2A]
       = [0x2A, 0xD835, 0xDDEE, 0xD83D, 0xDE00, 0x200B, 0x2A, 0x2A]"
    by (simp add: pass_eval unicode15_eval boldMap_def)
  have c2: "convertToIOSStyle unicode15 [0x2A, 0xD835, 0xDDEE, 0xD83D, 0xDE00, 0x200B, 0x2A, 0x2A]
       = [0xD835, 0xDDEE, 0xD83D, 0xDE00, 0x200B, 0x200B, 0x2A]"
    by (simp add: pass_eval unicode15_eval boldMap_def)
  have sp: "improveEmojiSpacing unicode15 [0x2A, 0xD835, 0xDDEE, 0xD83D, 0xDE00, 0x200B, 0x2A, 0x2A]
       = [0x2A, 0xD835, 0xDDEE, 0xD83D, 0xDE00, 0x200B, 0x200B, 0x2A, 0x2A]"
    by (simp add: pass_eval unicode15_eval)
  have d1: "convertToIOSStyle unicode15 [0x7E, 0xD83D, 0xDE00, 0x7E] = [0xD83D, 0x0336, 0xDE00, 0x0336]"
    by (simp add: pass_eval unicode15_eval)
  have d2: "convertToIOSStyle unicode15 [0xD83D, 0x0336, 0xDE00, 0x0336] = [0xD83D, 0x0336, 0xDE00, 0x0336]"
    by (simp add: pass_eval unicode15_eval)
  have e1: "list_ex (\<lambda>c. Emoji_Presentation unicode15 (cp c))
      (code_points [0x2A, 0x2A, 0x61, 0x2A, 0xD83D, 0xDE00, 0x2A, 0x2A])"
    by (simp add: is_high_def is_low_def unicode15_eval)
  have e2: "list_ex (\<lambda>c. Emoji_Presentation unicode15 (cp c)) (code_points [0x7E, 0xD83D, 0xDE00, 0x7E])"
    by (simp add: is_high_def is_low_def unicode15_eval)
  have ne: "[0xD835, 0xDDEE, 0xD83D, 0xDE00, 0x200B, 0x200B, 0x2A]
      \<noteq> [0x2A, 0xD835, 0xDDEE, 0xD83D, 0xDE00, 0x200B, 0x200B, 0x2A, (0x2A::16 word)]"
    by simp
  show ?thesis
    unfolding c1 c2 sp d1 d2 using e1 e2 ne by (intro conjI) (rule refl | assumption)+
qed


text \<open>
  Claim C10, amended. Let U+200B be neither in the emoji presentation class nor in
  the emoji class. The emoji pass puts one zero-width space after every emoji it
  matches, and run on its own output it puts a second one after the same emoji: a
  zero-width space put there before does not stop the match. So the pass is not
  idempotent on a text with an emoji. For every input whose conversion has no
  delimiter character and no straight quote left, the second conversion is the emoji
  pass alone: it gives the first conversion with one more zero-width space after
  each emoji in it, which is the text before the emoji pass with two zero-width spaces
  after each emoji where the first conversion has one; the two conversions differ
  whenever the first one holds an emoji.
\<close>

theorem C10_spacing_accumulates:
  assumes "\<not> Emoji_Presentation E 0x200B" and "\<not> Emoji E 0x200B"
  shows "improveEmojiSpacing E s = concat (spaced 1 E (code_points s))
     \<and> improveEmojiSpacing E (improveEmojiSpacing E s) = concat (spaced 2 E (code_points s))
     \<and> (\<not> emoji_free E (code_points s) \<longrightarrow>
          improveEmojiSpacing E (improveEmojiSpacing E s) \<noteq> improveEmojiSpacing E s)
     \<and> convertToIOSStyle E text
         = concat (spaced 1 E (code_points
             ((convertQuotes \<circ> convertMonospace \<circ> convertStrikethrough \<circ> convertItalic
                 \<circ> convertBold) text)))
     \<and> (set (convertToIOSStyle E text) \<inter> {0x2A, 0x5F, 0x7E, 0x60, 0x22, 0x27} = {} \<longrightarrow>
          convertToIOSStyle E (convertToIOSStyle E text)
            = improveEmojiSpacing E (convertToIOSStyle E text)
          \<and> convertToIOSStyle E (convertToIOSStyle E text)
            = concat (spaced 1 E (code_points (convertToIOSStyle E text)))
          \<and> convertToIOSStyle E (convertToIOSStyle E text)
            = concat (spaced 2 E (code_points
                ((convertQuotes \<circ> convertMonospace \<circ> convertStrikethrough \<circ> convertItalic
                    \<circ> convertBold) text)))
          \<and> (\<not> emoji_free E (code_points (convertToIOSStyle E text)) \<longrightarrow>
               convertToIOSStyle E (convertToIOSStyle E text) \<noteq> convertToIOSStyle E text)
          \<and> (\<not> emoji_free E (code_points
                 ((convertQuotes \<circ> convertMonospace \<circ> convertStrikethrough \<circ> convertItalic
                     \<circ> convertBold) text)) \<longrightarrow>
               convertToIOSStyle E (convertToIOSStyle E text) \<noteq> convertToIOSStyle E text))
     \<and> (set s \<inter> {0x2A, 0x5F, 0x7E, 0x60, 0x22, 0x27} = {} \<longrightarrow>
          convertToIOSStyle E s = concat (spaced 1 E (code_points s))
          \<and> convertToIOSStyle E (convertToIOSStyle E s) = concat (spaced 2 E (code_points s))
          \<and> (\<not> emoji_free E (code_points s) \<longrightarrow>
               convertToIOSStyle E (convertToIOSStyle E s) \<noteq> convertToIOSStyle E s))"
proof -
  define before where "before =
    (convertQuotes \<circ> convertMonospace \<circ> convertStrikethrough \<circ> convertItalic \<circ> convertBold) text"
  define out where "out = convertToIOSStyle E text"
  have one: "improveEmojiSpacing E s = concat (spaced 1 E (code_points s))"
    by (rule improveEmojiSpacing_spaced)
  have two: "improveEmojiSpacing E (improveEmojiSpacing E s) = concat (spaced 2 E (code_points s))"
    using assms by (rule improveEmojiSpacing_twice)
  have grow: "\<not> emoji_free E (code_points s) \<longrightarrow>
      improveEmojiSpacing E (improveEmojiSpacing E s) \<noteq> improveEmojiSpacing E s"
    using spaced_grows [of E "code_points s"] one two by metis
  have out_before: "out = improveEmojiSpacing E before"
    by (simp add: out_def before_def convertToIOSStyle_def Let_def)
  have out1: "out = concat (spaced 1 E (code_points before))"
    by (simp only: out_before improveEmojiSpacing_spaced)
  have again: "convertToIOSStyle E out = improveEmojiSpacing E out
      \<and> convertToIOSStyle E out = concat (spaced 1 E (code_points out))
      \<and> convertToIOSStyle E out = concat (spaced 2 E (code_points before))
      \<and> (\<not> emoji_free E (code_points out) \<longrightarrow> convertToIOSStyle E out \<noteq> out)
      \<and> (\<not> emoji_free E (code_points before) \<longrightarrow> convertToIOSStyle E out \<noteq> out)"
    if plain: "set out \<inter> {0x2A, 0x5F, 0x7E, 0x60, 0x22, 0x27} = {}"
  proof -
    have a: "convertToIOSStyle E out = improveEmojiSpacing E out"
      using plain by (rule convert_plain)
    have b: "improveEmojiSpacing E out = concat (spaced 1 E (code_points out))"
      by (rule improveEmojiSpacing_spaced)
    have c: "improveEmojiSpacing E out = concat (spaced 2 E (code_points before))"
      unfolding out_before using assms by (rule improveEmojiSpacing_twice)
    have d: "\<not> emoji_free E (code_points out) \<Longrightarrow> improveEmojiSpacing E out \<noteq> out"
      using spaced_one_grows [of E "code_points out"] b concat_code_points [of out] by metis
    have e: "\<not> emoji_free E (code_points before) \<Longrightarrow> improveEmojiSpacing E out \<noteq> out"
      using spaced_grows [of E "code_points before"] c out1 by metis
    show ?thesis using a b c d e by metis
  qed
  have conv: "convertToIOSStyle E s = improveEmojiSpacing E s
      \<and> convertToIOSStyle E (convertToIOSStyle E s) = improveEmojiSpacing E (improveEmojiSpacing E s)"
    if plain: "set s \<inter> {0x2A, 0x5F, 0x7E, 0x60, 0x22, 0x27} = {}"
    using convert_plain [OF plain, of E]
      convert_plain [OF improveEmojiSpacing_plain [OF plain], of E E]
    by simp
  have plain_s: "set s \<inter> {0x2A, 0x5F, 0x7E, 0x60, 0x22, 0x27} = {} \<longrightarrow>
          convertToIOSStyle E s = concat (spaced 1 E (code_points s))
          \<and> convertToIOSStyle E (convertToIOSStyle E s) = concat (spaced 2 E (code_points s))
          \<and> (\<not> emoji_free E (code_points s) \<longrightarrow>
               convertToIOSStyle E (convertToIOSStyle E s) \<noteq> convertToIOSStyle E s)"
    using one two grow conv by metis
  show ?thesis
    using one two grow out1 again plain_s
    unfolding out_def before_def by (intro conjI impI) blast+
qed

theorem C10_spacing_accumulates_witness:
  "\<not> Emoji_Presentation unicode15 0x200B \<and> \<not> Emoji unicode15 0x200B
   \<and> \<not> emoji_free unicode15 (code_points [0x48, 0x69, 0x20, 0xD83D, 0xDE00])
   \<and> improveEmojiSpacing unicode15 (improveEmojiSpacing unicode15 [0x48, 0x69, 0x20, 0xD83D, 0xDE00])
       \<noteq> improveEmojiSpacing unicode15 [0x48, 0x69, 0x20, 0xD83D, 0xDE00]
   \<and> convertToIOSStyle unicode15 [0x2A, 0x48, 0x69, 0x2A, 0x20, 0xD83D, 0xDE00]
       = [0xD835, 0xDDDB, 0xD835, 0xDDF6, 0x20, 0xD83D, 0xDE00, 0x200B]
   \<and> set (convertToIOSStyle unicode15 [0x2A, 0x48, 0x69, 0x2A, 0x20, 0xD83D, 0xDE00])
         \<inter> {0x2A, 0x5F, 0x7E, 0x60, 0x22, 0x27} = {}
   \<and> \<not> emoji_free unicode15
         (code_points (convertToIOSStyle unicode15 [0x2A, 0x48, 0x69, 0x2A, 0x20, 0xD83D, 0xDE00]))
   \<and> \<not> emoji_free unicode15
         (code_points ((convertQuotes \<circ> convertMonospace \<circ> convertStrikethrough \<circ> convertItalic
             \<circ> convertBold) [0x2A, 0x48, 0x69, 0x2A, 0x20, 0xD83D, 0xDE00]))
   \<and> convertToIOSStyle unicode15
         (convertToIOSStyle unicode15 [0x2A, 0x48, 0x69, 0x2A, 0x20, 0xD83D, 0xDE00])
       = [0xD835, 0xDDDB, 0xD835, 0xDDF6, 0x20, 0xD83D, 0xDE00, 0x200B, 0x200B]
   \<and> convertToIOSStyle unicode15
         (convertToIOSStyle unicode15 [0x2A, 0x48, 0x69, 0x2A, 0x20, 0xD83D, 0xDE00])
       \<noteq> convertToIOSStyle unicode15 [0x2A, 0x48, 0x69, 0x2A, 0x20, 0xD83D, 0xDE00]
   \<and> set ([0x48, 0x69, 0x20, 0xD83D, 0xDE00] :: jsstring) \<inter> {0x2A, 0x5F, 0x7E, 0x60, 0x22, 0x27} = {}
   \<and> convertToIOSStyle unicode15 [0x48, 0x69, 0x20, 0xD83D, 0xDE00]
       = [0x48, 0x69, 0x20, 0xD83D, 0xDE00, 0x200B]
   \<and> convertToIOSStyle unicode15 (convertToIOSStyle unicode15 [0x48, 0x69, 0x20, 0xD83D, 0xDE00])
       = [0x48, 0x69, 0x20, 0xD83D, 0xDE00, 0x200B, 0x200B]
   \<and> convertToIOSStyle unicode15 (convertToIOSStyle unicode15 [0x48, 0x69, 0x20, 0xD83D, 0xDE00])
       \<noteq> convertToIOSStyle unicode15 [0x48, 0x69, 0x20, 0xD83D, 0xDE00]"
proof -
  have z1: "\<not> Emoji_Presentation unicode15 0x200B" by (simp add: unicode15_eval)
  have z2: "\<not> Emoji unicode15 0x200B" by (simp add: unicode15_eval)
  have cps: "code_points [0x48, 0x69, 0x20, 0xD83D, 0xDE00] = [[0x48], [0x69], [0x20], [0xD83D, 0xDE00]]"
    by (simp add: is_high_def is_low_def)
  have e: "\<not> emoji_free unicode15 (code_points [0x48, 0x69, 0x20, 0xD83D, 0xDE00])"
    unfolding cps by (simp add: unicode15_eval)
  have p: "set ([0x48, 0x69, 0x20, 0xD83D, 0xDE00] :: jsstring) \<inter> {0x2A, 0x5F, 0x7E, 0x60, 0x22, 0x27} = {}"
    by simp
  have s1: "concat (spaced 1 unicode15 (code_points [0x48, 0x69, 0x20, 0xD83D, 0xDE00]))
              = [0x48, 0x69, 0x20, 0xD83D, 0xDE00, 0x200B]"
    unfolding cps by (simp add: unicode15_eval)
  have s2: "concat (spaced 2 unicode15 (code_points [0x48, 0x69, 0x20, 0xD83D, 0xDE00]))
              = [0x48, 0x69, 0x20, 0xD83D, 0xDE00, 0x200B, 0x200B]"
    unfolding cps by (simp add: unicode15_eval replicate_two)
  have out: "convertToIOSStyle unicode15 [0x2A, 0x48, 0x69, 0x2A, 0x20, 0xD83D, 0xDE00]
       = [0xD835, 0xDDDB, 0xD835, 0xDDF6, 0x20, 0xD83D, 0xDE00, 0x200B]"
    by (simp add: pass_eval unicode15_eval boldMap_def)
  have before: "(convertQuotes \<circ> convertMonospace \<circ> convertStrikethrough \<circ> convertItalic
             \<circ> convertBold) [0x2A, 0x48, 0x69, 0x2A, 0x20, 0xD83D, 0xDE00]
       = [0xD835, 0xDDDB, 0xD835, 0xDDF6, 0x20, 0xD83D, 0xDE00]"
    by (simp add: pass_eval boldMap_def)
  have cps_out: "code_points [0xD835, 0xDDDB, 0xD835, 0xDDF6, 0x20, 0xD83D, 0xDE00, 0x200B]
       = [[0xD835, 0xDDDB], [0xD835, 0xDDF6], [0x20], [0xD83D, 0xDE00], [0x200B]]"
    by (simp add: is_high_def is_low_def)
  have cps_before: "code_points [0xD835, 0xDDDB, 0xD835, 0xDDF6, 0x20, 0xD83D, 0xDE00]
       = [[0xD835, 0xDDDB], [0xD835, 0xDDF6], [0x20], [0xD83D, 0xDE00]]"
    by (simp add: is_high_def is_low_def)
  have p_out: "set (convertToIOSStyle unicode15 [0x2A, 0x48, 0x69, 0x2A, 0x20, 0xD83D, 0xDE00])
         \<inter> {0x2A, 0x5F, 0x7E, 0x60, 0x22, 0x27} = {}"
    unfolding out by simp
  have e_out: "\<not> emoji_free unicode15
         (code_points (convertToIOSStyle unicode15 [0x2A, 0x48, 0x69, 0x2A, 0x20, 0xD83D, 0xDE00]))"
    unfolding out cps_out by (simp add: unicode15_eval)
  have e_before: "\<not> emoji_free unicode15
         (code_points ((convertQuotes \<circ> convertMonospace \<circ> convertStrikethrough \<circ> convertItalic
             \<circ> convertBold) [0x2A, 0x48, 0x69, 0x2A, 0x20, 0xD83D, 0xDE00]))"
    unfolding before cps_before by (simp add: unicode15_eval)
  have sp_out: "concat (spaced 1 unicode15
         (code_points (convertToIOSStyle unicode15 [0x2A, 0x48, 0x69, 0x2A, 0x20, 0xD83D, 0xDE00])))
       = [0xD835, 0xDDDB, 0xD835, 0xDDF6, 0x20, 0xD83D, 0xDE00, 0x200B, 0x200B]"
    unfolding out cps_out by (simp add: unicode15_eval)
  note c10 = C10_spacing_accumulates [OF z1 z2, of "[0x48, 0x69, 0x20, 0xD83D, 0xDE00]"
      "[0x2A, 0x48, 0x69, 0x2A, 0x20, 0xD83D, 0xDE00]"]
  note grows = c10 [THEN conjunct2, THEN conjunct2, THEN conjunct1, THEN mp, OF e]
  note t4 = c10 [THEN conjunct2, THEN conjunct2, THEN conjunct2, THEN conjunct2]
  note second = t4 [THEN conjunct1, THEN mp, OF p_out]
  note second_value = second [THEN conjunct2, THEN conjunct1, unfolded sp_out]
  note second_differs = second [THEN conjunct2, THEN conjunct2, THEN conjunct2, THEN conjunct1,
      THEN mp, OF e_out]
  note conv = t4 [THEN conjunct2, THEN mp, OF p]
  note conv1 = conv [THEN conjunct1, unfolded s1]
  note conv2 = conv [THEN conjunct2, THEN conjunct1, unfolded s2]
  note conv3 = conv [THEN conjunct2, THEN conjunct2, THEN mp, OF e]
  show ?thesis
    by (intro conjI z1 z2 e grows out p_out e_out e_before second_value second_differs
          p conv1 conv2 conv3)
qed

end
